theory Spec2Isabelle
  imports Complex_Main "HOL-Library.List_Lexorder" "HOL-Library.Multiset"
begin

section \<open>Time values\<close>

text \<open>
  A Python \<open>datetime\<close> is modelled by its wall-clock reading in microseconds counted from
  0001-01-01T00:00:00 (the smallest value of the type) and by its \<open>tzinfo\<close>: \<open>None\<close> for an
  offset-naive value, \<open>Some off\<close> for an aware one with a fixed UTC offset of \<open>off\<close>
  microseconds (\<open>timezone.utc\<close> is \<open>Some 0\<close>). The type is bounded: the largest value is
  9999-12-31T23:59:59.999999, and arithmetic that leaves the range raises \<open>OverflowError\<close>.
\<close>

record datetime =
  naive_us :: int
  tzinfo :: "int option"

datatype error =
    UnsupportedTable string  \<comment> \<open>the \<open>ValueError\<close> raised for a table outside the registry\<close>
  | UnparsableTime string    \<comment> \<open>the \<open>ValueError\<close> raised when no time format matches\<close>
  | TypeError                \<comment> \<open>comparison of an offset-naive with an offset-aware datetime\<close>
  | OverflowError            \<comment> \<open>date or timedelta out of range\<close>
  | AttributeError           \<comment> \<open>use of the connection pool while it is still \<open>None\<close>\<close>
  | KeyError string
  | QueryError               \<comment> \<open>the data store rejects the query\<close>

definition datetime_max_us :: int where
  "datetime_max_us = 3652059 * 86400000000 - 1"

definition valid_datetime :: "datetime \<Rightarrow> bool" where
  "valid_datetime d = (0 \<le> naive_us d \<and> naive_us d \<le> datetime_max_us)"

definition utc :: "int option" where
  "utc = Some 0"

text \<open>The instant a datetime denotes; a naive value is read as UTC.\<close>

definition instant :: "datetime \<Rightarrow> int" where
  "instant d = naive_us d - (case tzinfo d of None \<Rightarrow> 0 | Some off \<Rightarrow> off)"

text \<open>\<open>timedelta(minutes=m)\<close>, in microseconds; more than 999999999 days either way is refused.\<close>

definition timedelta_minutes :: "int \<Rightarrow> error + int" where
  "timedelta_minutes m =
     (if m div 1440 < - 999999999 \<or> 999999999 < m div 1440 then Inl OverflowError
      else Inr (m * 60000000))"

text \<open>\<open>d + delta\<close>: the wall-clock reading moves, the \<open>tzinfo\<close> stays.\<close>

definition dt_add :: "datetime \<Rightarrow> int \<Rightarrow> error + datetime" where
  "dt_add d delta =
     (if naive_us d + delta < 0 \<or> datetime_max_us < naive_us d + delta then Inl OverflowError
      else Inr (d\<lparr>naive_us := naive_us d + delta\<rparr>))"

text \<open>\<open>a < b\<close> on datetimes: defined between two naive or two aware values only.\<close>

definition dt_less :: "datetime \<Rightarrow> datetime \<Rightarrow> error + bool" where
  "dt_less a b =
     (case (tzinfo a, tzinfo b) of
        (None, None) \<Rightarrow> Inr (naive_us a < naive_us b)
      | (Some oa, Some ob) \<Rightarrow> Inr (naive_us a - oa < naive_us b - ob)
      | _ \<Rightarrow> Inl TypeError)"

text \<open>\<open>min(a, b)\<close>: the built-in keeps \<open>a\<close> unless \<open>b < a\<close>.\<close>

definition dt_min :: "datetime \<Rightarrow> datetime \<Rightarrow> error + datetime" where
  "dt_min a b = (case dt_less b a of Inl e \<Rightarrow> Inl e | Inr lt \<Rightarrow> Inr (if lt then b else a))"

section \<open>Configuration (config.py)\<close>

record table_config =
  time_field :: string
  primary_key :: string
  order_fields :: "string list"

text \<open>The registry, entry for entry; the free-text \<open>description\<close> of each table is left out.\<close>

definition TABLE_CONFIGS :: "(string \<times> table_config) list" where
  "TABLE_CONFIGS =
    [(''tweets'', \<lparr>time_field = ''created_at_ts'', primary_key = ''tweet_id'',
        order_fields = [''created_at_ts'', ''tweet_id'']\<rparr>),
     (''replies'', \<lparr>time_field = ''created_at_ts'', primary_key = ''tweet_id'',
        order_fields = [''created_at_ts'', ''tweet_id'']\<rparr>),
     (''users'', \<lparr>time_field = ''updated_at'', primary_key = ''user_id'',
        order_fields = [''updated_at'', ''user_id'']\<rparr>),
     (''followers'', \<lparr>time_field = ''follower_created_at_ts'', primary_key = ''follower_id'',
        order_fields = [''follower_created_at_ts'', ''user_id'', ''follower_id'']\<rparr>),
     (''following'', \<lparr>time_field = ''following_created_at_ts'', primary_key = ''following_id'',
        order_fields = [''following_created_at_ts'', ''user_id'', ''following_id'']\<rparr>),
     (''quoted_status_summary'', \<lparr>time_field = ''created_at_ts'', primary_key = ''tweet_id'',
        order_fields = [''created_at_ts'', ''tweet_id'']\<rparr>),
     (''retweeted_status_summary'', \<lparr>time_field = ''created_at_ts'', primary_key = ''tweet_id'',
        order_fields = [''created_at_ts'', ''tweet_id'']\<rparr>),
     (''kol_task_status'', \<lparr>time_field = ''updated_at'', primary_key = ''user_id'',
        order_fields = [''updated_at'', ''user_id'']\<rparr>)]"

definition table_config_of :: "string \<Rightarrow> table_config option" where
  "table_config_of table_name = map_of TABLE_CONFIGS table_name"

record default_config =
  dc_chunk_size :: int
  dc_time_interval_minutes :: int
  dc_max_connections :: int
  dc_fetch_timeout :: int

definition DEFAULT_CONFIG :: default_config where
  "DEFAULT_CONFIG = \<lparr>dc_chunk_size = 1000, dc_time_interval_minutes = 60,
     dc_max_connections = 3, dc_fetch_timeout = 300\<rparr>"

definition TIME_FORMATS :: "string list" where
  "TIME_FORMATS = [''%Y-%m-%d %H:%M:%S'', ''%Y-%m-%d'', ''%Y-%m-%dT%H:%M:%S'',
     ''%Y-%m-%dT%H:%M:%SZ'', ''%Y-%m-%d %H:%M:%S.%f'']"

section \<open>The fetcher (data_fetcher.py)\<close>

datatype pool = Pool

record fetcher =
  chunk_size :: int
  time_interval_minutes :: int
  max_connections :: int
  pool :: "pool option"

text \<open>
  \<open>x or default\<close>: Python takes the default when \<open>x\<close> is \<open>None\<close> or \<open>0\<close>, and \<open>x\<close> itself
  otherwise.
\<close>

definition or_default :: "int option \<Rightarrow> int \<Rightarrow> int" where
  "or_default x d = (case x of None \<Rightarrow> d | Some v \<Rightarrow> if v = 0 then d else v)"

definition init :: "int option \<Rightarrow> int option \<Rightarrow> int option \<Rightarrow> fetcher" where
  "init cs ti mc =
     \<lparr>chunk_size = or_default cs (dc_chunk_size DEFAULT_CONFIG),
      time_interval_minutes = or_default ti (dc_time_interval_minutes DEFAULT_CONFIG),
      max_connections = or_default mc (dc_max_connections DEFAULT_CONFIG),
      pool = None\<rparr>"

text \<open>
  A successful \<open>init_connection\<close>: the fetcher holds a pool. (Its failure, re-raised to the
  caller, leaves the fetcher as it was.)
\<close>

definition init_connection :: "fetcher \<Rightarrow> fetcher" where
  "init_connection f = f\<lparr>pool := Some Pool\<rparr>"

text \<open>
  What the fetcher takes from outside the repository: the library's \<open>datetime.strptime\<close>
  (\<open>None\<close> stands for its \<open>ValueError\<close>), \<open>isoformat\<close> and \<open>str\<close> on the datetime
  that the driver returns for a timestamp column, and the data store, given by the columns
  and the rows of each table and by its evaluation of a raw predicate fragment on a row. A
  column value is \<open>NULL\<close>, an integer, a text or a timestamp (an instant in microseconds).
\<close>

datatype sqlval = SqlNull | SqlInt int | SqlText string | SqlTimestamp int

type_synonym row = "(string \<times> sqlval) list"

record env =
  strptime :: "string \<Rightarrow> string \<Rightarrow> datetime option"
  isoformat :: "datetime \<Rightarrow> string"
  str_datetime :: "int \<Rightarrow> string"
  db_columns :: "string \<Rightarrow> string list"
  db_rows :: "string \<Rightarrow> row list"
  db_where :: "string \<Rightarrow> row \<Rightarrow> bool"

datatype time_input = TStr string | TDatetime datetime

fun try_formats :: "env \<Rightarrow> string \<Rightarrow> string list \<Rightarrow> error + datetime" where
  "try_formats ev time_str [] = Inl (UnparsableTime time_str)"
| "try_formats ev time_str (fmt # fmts) =
     (case strptime ev time_str fmt of
        Some dt \<Rightarrow> Inr (if tzinfo dt = None then dt\<lparr>tzinfo := utc\<rparr> else dt)
      | None \<Rightarrow> try_formats ev time_str fmts)"

definition parse_time :: "env \<Rightarrow> time_input \<Rightarrow> error + datetime" where
  "parse_time ev time_str =
     (case time_str of
        TDatetime d \<Rightarrow> Inr d
      | TStr s \<Rightarrow> try_formats ev s TIME_FORMATS)"

text \<open>
  The loop of \<open>generate_time_windows\<close>. It need not terminate (a zero interval never moves
  the cursor), so it is a partial function: \<open>None\<close> is "does not return".
\<close>

partial_function (option) windows_loop ::
  "int \<Rightarrow> datetime \<Rightarrow> (datetime \<times> datetime) list \<Rightarrow> datetime
     \<Rightarrow> (error + (datetime \<times> datetime) list) option" where
  "windows_loop minutes end_dt windows current_time =
     (case dt_less current_time end_dt of
        Inl e \<Rightarrow> Some (Inl e)
      | Inr continue \<Rightarrow>
          if continue then
            (case timedelta_minutes minutes of
               Inl e \<Rightarrow> Some (Inl e)
             | Inr delta \<Rightarrow>
                 (case dt_add current_time delta of
                    Inl e \<Rightarrow> Some (Inl e)
                  | Inr raw_end \<Rightarrow>
                      (case dt_min raw_end end_dt of
                         Inl e \<Rightarrow> Some (Inl e)
                       | Inr window_end \<Rightarrow>
                           windows_loop minutes end_dt
                             (windows @ [(current_time, window_end)]) window_end)))
          else Some (Inr windows))"

definition generate_time_windows ::
  "fetcher \<Rightarrow> env \<Rightarrow> time_input \<Rightarrow> time_input \<Rightarrow> (error + (datetime \<times> datetime) list) option" where
  "generate_time_windows f ev start_time end_time =
     (case parse_time ev start_time of
        Inl e \<Rightarrow> Some (Inl e)
      | Inr start_dt \<Rightarrow>
          (case parse_time ev end_time of
             Inl e \<Rightarrow> Some (Inl e)
           | Inr end_dt \<Rightarrow> windows_loop (time_interval_minutes f) end_dt [] start_dt))"

section \<open>The data store\<close>

text \<open>
  The two statements the fetcher builds, by their parts. The optional predicate fragment is
  part of the statement only when it is truthy (\<open>if where_conditions:\<close>), the field list only
  when it is a non-empty list (otherwise \<open>*\<close>).
\<close>

record count_query =
  cq_table :: string
  cq_time_field :: string
  cq_start :: datetime
  cq_end :: datetime
  cq_where :: "string option"

record fetch_query =
  fq_fields :: "string list option"
  fq_table :: string
  fq_time_field :: string
  fq_start :: datetime
  fq_end :: datetime
  fq_where :: "string option"
  fq_order :: "string list"
  fq_limit :: int
  fq_offset :: int

datatype query = Count_Query count_query | Fetch_Query fetch_query

text \<open>
  The store is taken to hold the tables of the registry, each with the time column and the
  order columns the registry names for it. A static store answers the two statements as SQL
  does: the rows whose time column lies in the half-open range between the two bound
  parameters (a missing or \<open>NULL\<close> time never matches) and that satisfy the fragment, in
  ascending order of the order columns (\<open>NULL\<close> last), then \<open>OFFSET\<close> and \<open>LIMIT\<close>, each row
  as a record with one entry per selected column, in the order of the field list (for \<open>*\<close>:
  the columns of the table); a column the stored row holds no value for is \<open>NULL\<close>. The
  entries of the field list are read as column names, as the command line and the examples
  give them, and the store rejects a list that names a column the table does not have.
  \<open>LIMIT\<close> and \<open>OFFSET\<close> are of type \<open>bigint\<close>: the store rejects a value that is negative
  or larger than the largest \<open>bigint\<close>.
\<close>

definition in_range :: "string \<Rightarrow> datetime \<Rightarrow> datetime \<Rightarrow> row \<Rightarrow> bool" where
  "in_range tf start_dt end_dt r =
     (case map_of r tf of
        Some (SqlTimestamp t) \<Rightarrow> instant start_dt \<le> t \<and> t < instant end_dt
      | _ \<Rightarrow> False)"

definition satisfies :: "env \<Rightarrow> string option \<Rightarrow> row \<Rightarrow> bool" where
  "satisfies ev w r = (case w of None \<Rightarrow> True | Some p \<Rightarrow> db_where ev p r)"

definition matching ::
  "env \<Rightarrow> string \<Rightarrow> string \<Rightarrow> datetime \<Rightarrow> datetime \<Rightarrow> string option \<Rightarrow> row list" where
  "matching ev table_name tf start_dt end_dt w =
     filter (\<lambda>r. in_range tf start_dt end_dt r \<and> satisfies ev w r) (db_rows ev table_name)"

fun sql_rank :: "sqlval option \<Rightarrow> int list" where
  "sql_rank (Some (SqlInt i)) = [0, i]"
| "sql_rank (Some (SqlTimestamp t)) = [0, t]"
| "sql_rank (Some (SqlText s)) = 0 # map (\<lambda>c. int (of_char c)) s"
| "sql_rank (Some SqlNull) = [1]"
| "sql_rank None = [1]"

definition order_key :: "string list \<Rightarrow> row \<Rightarrow> int list list" where
  "order_key cols r = map (\<lambda>c. sql_rank (map_of r c)) cols"

definition bigint_max :: int where
  "bigint_max = 2 ^ 63 - 1"

definition selected_columns :: "env \<Rightarrow> string \<Rightarrow> string list option \<Rightarrow> string list" where
  "selected_columns ev table_name cols =
     (case cols of None \<Rightarrow> db_columns ev table_name | Some cs \<Rightarrow> cs)"

definition column_value :: "row \<Rightarrow> string \<Rightarrow> sqlval" where
  "column_value r c = (case map_of r c of None \<Rightarrow> SqlNull | Some v \<Rightarrow> v)"

definition project :: "string list \<Rightarrow> row \<Rightarrow> row" where
  "project cols r = map (\<lambda>c. (c, column_value r c)) cols"

definition accepted :: "env \<Rightarrow> fetch_query \<Rightarrow> bool" where
  "accepted ev q =
     (0 \<le> fq_limit q \<and> fq_limit q \<le> bigint_max
      \<and> 0 \<le> fq_offset q \<and> fq_offset q \<le> bigint_max
      \<and> list_all (\<lambda>c. c \<in> set (db_columns ev (fq_table q)))
            (selected_columns ev (fq_table q) (fq_fields q)))"

definition run_count :: "env \<Rightarrow> count_query \<Rightarrow> int" where
  "run_count ev q =
     int (length (matching ev (cq_table q) (cq_time_field q) (cq_start q) (cq_end q) (cq_where q)))"

definition run_fetch :: "env \<Rightarrow> fetch_query \<Rightarrow> error + row list" where
  "run_fetch ev q =
     (if \<not> accepted ev q then Inl QueryError
      else Inr (map (project (selected_columns ev (fq_table q) (fq_fields q)))
             (take (nat (fq_limit q)) (drop (nat (fq_offset q))
                (sort_key (order_key (fq_order q))
                   (matching ev (fq_table q) (fq_time_field q) (fq_start q) (fq_end q)
                      (fq_where q)))))))"

section \<open>Counting and fetching\<close>

text \<open>
  What a call does besides returning is kept as a log of events: each statement sent to the
  store, each chunk handed to the consumer, each cooperative pause (\<open>asyncio.sleep\<close>).
\<close>

datatype 'c event = Query query | Yield 'c | Sleep

definition truthy_str :: "string option \<Rightarrow> string option" where
  "truthy_str w = (case w of None \<Rightarrow> None | Some p \<Rightarrow> if p = [] then None else Some p)"

definition truthy_list :: "string list option \<Rightarrow> string list option" where
  "truthy_list fs = (case fs of None \<Rightarrow> None | Some l \<Rightarrow> if l = [] then None else Some l)"

text \<open>
  \<open>dict(row)\<close> on a record of the driver: one entry per key, at the place of the key's
  first entry and with the value of its last.
\<close>

fun dict_set :: "row \<Rightarrow> string \<Rightarrow> sqlval \<Rightarrow> row" where
  "dict_set [] k v = [(k, v)]"
| "dict_set ((k', v') # d) k v =
     (if k' = k then (k, v) # d else (k', v') # dict_set d k v)"

definition dict :: "row \<Rightarrow> row" where
  "dict r = foldl (\<lambda>d (k, v). dict_set d k v) [] r"

definition get_table_count ::
  "fetcher \<Rightarrow> env \<Rightarrow> string \<Rightarrow> time_input \<Rightarrow> time_input \<Rightarrow> string option
     \<Rightarrow> 'c event list \<times> (error + int)" where
  "get_table_count f ev table_name start_time end_time where_conditions =
     (case table_config_of table_name of
        None \<Rightarrow> ([], Inl (UnsupportedTable table_name))
      | Some config \<Rightarrow>
          (case parse_time ev start_time of
             Inl e \<Rightarrow> ([], Inl e)
           | Inr start_dt \<Rightarrow>
               (case parse_time ev end_time of
                  Inl e \<Rightarrow> ([], Inl e)
                | Inr end_dt \<Rightarrow>
                    (let query = \<lparr>cq_table = table_name, cq_time_field = time_field config,
                                  cq_start = start_dt, cq_end = end_dt,
                                  cq_where = truthy_str where_conditions\<rparr>
                     in case pool f of
                          None \<Rightarrow> ([], Inl AttributeError)
                        | Some conn \<Rightarrow> ([Query (Count_Query query)], Inr (run_count ev query))))))"

definition fetch_data_chunk ::
  "fetcher \<Rightarrow> env \<Rightarrow> string \<Rightarrow> time_input \<Rightarrow> time_input \<Rightarrow> int \<Rightarrow> int option
     \<Rightarrow> string option \<Rightarrow> string list option \<Rightarrow> 'c event list \<times> (error + row list)" where
  "fetch_data_chunk f ev table_name start_time end_time offset limit where_conditions
       select_fields =
     (case table_config_of table_name of
        None \<Rightarrow> ([], Inl (UnsupportedTable table_name))
      | Some config \<Rightarrow>
          (case parse_time ev start_time of
             Inl e \<Rightarrow> ([], Inl e)
           | Inr start_dt \<Rightarrow>
               (case parse_time ev end_time of
                  Inl e \<Rightarrow> ([], Inl e)
                | Inr end_dt \<Rightarrow>
                    (let query = \<lparr>fq_fields = truthy_list select_fields, fq_table = table_name,
                                  fq_time_field = time_field config,
                                  fq_start = start_dt, fq_end = end_dt,
                                  fq_where = truthy_str where_conditions,
                                  fq_order = order_fields config,
                                  fq_limit = or_default limit (chunk_size f),
                                  fq_offset = offset\<rparr>
                     in case pool f of
                          None \<Rightarrow> ([], Inl AttributeError)
                        | Some conn \<Rightarrow>
                            (case run_fetch ev query of
                               Inl e \<Rightarrow> ([Query (Fetch_Query query)], Inl e)
                             | Inr rows \<Rightarrow>
                                 ([Query (Fetch_Query query)], Inr (map dict rows)))))))"

section \<open>Streaming\<close>

text \<open>
  The chunk envelopes of the two modes. \<open>progress\<close> is kept as the exact quotient (Python
  returns the double nearest to it). The \<open>query_time\<close> entry of the metadata, a reading of
  the wall clock, is left out.
\<close>

record metadata =
  md_table_name :: string
  md_time_field :: string

record flat_chunk =
  fc_chunk_index :: int
  fc_chunk_offset :: int
  fc_chunk_size :: int
  fc_total_count :: int
  fc_progress :: rat
  fc_data :: "row list"
  fc_metadata :: metadata

record window_chunk =
  wc_window_index :: int
  wc_window_start :: string
  wc_window_end :: string
  wc_chunk_offset :: int
  wc_chunk_size :: int
  wc_total_records_so_far :: int
  wc_data :: "row list"
  wc_metadata :: metadata

text \<open>
  A streaming call is an asynchronous generator. Its model returns the log of everything it
  did up to its end together with how it ended: \<open>None\<close> when the generator is exhausted,
  \<open>Some e\<close> when it raised \<open>e\<close>.
\<close>

text \<open>The \<open>while offset < total_count\<close> loop of \<open>stream_data_by_chunks\<close>.\<close>

function chunks_loop ::
  "fetcher \<Rightarrow> env \<Rightarrow> string \<Rightarrow> time_input \<Rightarrow> time_input \<Rightarrow> string option
     \<Rightarrow> string list option \<Rightarrow> int \<Rightarrow> int \<Rightarrow> int \<Rightarrow> flat_chunk event list \<times> error option" where
  "chunks_loop f ev table_name start_time end_time where_conditions select_fields
       total_count offset chunk_index =
     (if offset < total_count then
        (case fetch_data_chunk f ev table_name start_time end_time offset (Some (chunk_size f))
                where_conditions select_fields of
           (lg, Inl e) \<Rightarrow> (lg, Some e)
         | (lg, Inr chunk_data) \<Rightarrow>
             if chunk_data = [] then (lg, None)
             else
               (case table_config_of table_name of
                  None \<Rightarrow> (lg, Some (KeyError table_name))
                | Some config \<Rightarrow>
                    (let chunk_index' = chunk_index + 1;
                         size = int (length chunk_data);
                         chunk = \<lparr>fc_chunk_index = chunk_index', fc_chunk_offset = offset,
                                  fc_chunk_size = size, fc_total_count = total_count,
                                  fc_progress = of_int (offset + size) / of_int total_count,
                                  fc_data = chunk_data,
                                  fc_metadata = \<lparr>md_table_name = table_name,
                                                 md_time_field = time_field config\<rparr>\<rparr>;
                         (rest, outcome) =
                            chunks_loop f ev table_name start_time end_time where_conditions
                              select_fields total_count (offset + chunk_size f) chunk_index'
                     in (lg @ [Yield chunk, Sleep] @ rest, outcome))))
      else ([], None))"
  by pat_completeness auto

termination chunks_loop
  apply (relation "measure (\<lambda>(f, ev, tn, s, e, w, sf, total_count, offset, ci).
                     nat (total_count - offset))")
   apply simp
  apply (auto simp: fetch_data_chunk_def run_fetch_def or_default_def Let_def
      split: option.splits sum.splits if_splits)
  done

declare chunks_loop.simps [simp del]

definition stream_data_by_chunks ::
  "fetcher \<Rightarrow> env \<Rightarrow> string \<Rightarrow> time_input \<Rightarrow> time_input \<Rightarrow> string option
     \<Rightarrow> string list option \<Rightarrow> flat_chunk event list \<times> error option" where
  "stream_data_by_chunks f ev table_name start_time end_time where_conditions select_fields =
     (case get_table_count f ev table_name start_time end_time where_conditions of
        (lg, Inl e) \<Rightarrow> (lg, Some e)
      | (lg, Inr total_count) \<Rightarrow>
          if total_count = 0 then (lg, None)
          else
            (let (rest, outcome) =
                   chunks_loop f ev table_name start_time end_time where_conditions
                     select_fields total_count 0 0
             in (lg @ rest, outcome)))"

text \<open>
  The \<open>while offset < window_count\<close> loop of \<open>stream_data_by_time_windows\<close> for the window
  numbered \<open>i\<close>; it returns the running total \<open>total_records\<close> for the next window.
\<close>

function window_pages ::
  "fetcher \<Rightarrow> env \<Rightarrow> string \<Rightarrow> string option \<Rightarrow> string list option \<Rightarrow> int
     \<Rightarrow> datetime \<Rightarrow> datetime \<Rightarrow> int \<Rightarrow> int \<Rightarrow> int
     \<Rightarrow> window_chunk event list \<times> (error + int)" where
  "window_pages f ev table_name where_conditions select_fields i window_start window_end
       window_count offset total_records =
     (if offset < window_count then
        (case fetch_data_chunk f ev table_name (TDatetime window_start) (TDatetime window_end)
                offset (Some (chunk_size f)) where_conditions select_fields of
           (lg, Inl e) \<Rightarrow> (lg, Inl e)
         | (lg, Inr chunk_data) \<Rightarrow>
             if chunk_data = [] then (lg, Inr total_records)
             else
               (case table_config_of table_name of
                  None \<Rightarrow> (lg, Inl (KeyError table_name))
                | Some config \<Rightarrow>
                    (let size = int (length chunk_data);
                         total_records' = total_records + size;
                         chunk = \<lparr>wc_window_index = i,
                                  wc_window_start = isoformat ev window_start,
                                  wc_window_end = isoformat ev window_end,
                                  wc_chunk_offset = offset, wc_chunk_size = size,
                                  wc_total_records_so_far = total_records',
                                  wc_data = chunk_data,
                                  wc_metadata = \<lparr>md_table_name = table_name,
                                                 md_time_field = time_field config\<rparr>\<rparr>;
                         pause = (if size \<ge> chunk_size f then [Sleep] else []);
                         (rest, result) =
                            window_pages f ev table_name where_conditions select_fields i
                              window_start window_end window_count (offset + chunk_size f)
                              total_records'
                     in (lg @ [Yield chunk] @ pause @ rest, result))))
      else ([], Inr total_records))"
  by pat_completeness auto
termination window_pages
  apply (relation "measure (\<lambda>(f, ev, tn, w, sf, i, ws, we, window_count, offset, tr).
                     nat (window_count - offset))")
   apply simp
  apply (auto simp: fetch_data_chunk_def run_fetch_def or_default_def Let_def
      split: option.splits sum.splits if_splits)
  done

declare window_pages.simps [simp del]

text \<open>The \<open>for i, (window_start, window_end) in enumerate(windows, 1)\<close> loop.\<close>

fun windows_iter ::
  "fetcher \<Rightarrow> env \<Rightarrow> string \<Rightarrow> string option \<Rightarrow> string list option \<Rightarrow> int
     \<Rightarrow> (datetime \<times> datetime) list \<Rightarrow> int \<Rightarrow> window_chunk event list \<times> error option" where
  "windows_iter f ev table_name where_conditions select_fields i [] total_records = ([], None)"
| "windows_iter f ev table_name where_conditions select_fields i
       ((window_start, window_end) # windows) total_records =
     (case get_table_count f ev table_name (TDatetime window_start) (TDatetime window_end)
             where_conditions of
        (lg, Inl e) \<Rightarrow> (lg, Some e)
      | (lg, Inr window_count) \<Rightarrow>
          if window_count = 0 then
            (let (rest, outcome) =
                   windows_iter f ev table_name where_conditions select_fields (i + 1) windows
                     total_records
             in (lg @ rest, outcome))
          else
            (case window_pages f ev table_name where_conditions select_fields i window_start
                    window_end window_count 0 total_records of
               (pages, Inl e) \<Rightarrow> (lg @ pages, Some e)
             | (pages, Inr total_records') \<Rightarrow>
                 (let (rest, outcome) =
                        windows_iter f ev table_name where_conditions select_fields (i + 1)
                          windows total_records'
                  in (lg @ pages @ rest, outcome))))"

definition stream_data_by_time_windows ::
  "fetcher \<Rightarrow> env \<Rightarrow> string \<Rightarrow> time_input \<Rightarrow> time_input \<Rightarrow> string option
     \<Rightarrow> string list option \<Rightarrow> (window_chunk event list \<times> error option) option" where
  "stream_data_by_time_windows f ev table_name start_time end_time where_conditions
       select_fields =
     (case generate_time_windows f ev start_time end_time of
        None \<Rightarrow> None
      | Some (Inl e) \<Rightarrow> Some ([], Some e)
      | Some (Inr windows) \<Rightarrow>
          Some (windows_iter f ev table_name where_conditions select_fields 1 windows 0))"

text \<open>The chunks a log hands to the consumer, in order.\<close>

fun yields :: "'c event list \<Rightarrow> 'c list" where
  "yields [] = []"
| "yields (Yield c # es) = c # yields es"
| "yields (e # es) = yields es"

fun queries :: "'c event list \<Rightarrow> query list" where
  "queries [] = []"
| "queries (Query q # es) = q # queries es"
| "queries (e # es) = queries es"

section \<open>Export\<close>

text \<open>
  \<open>json.dumps(chunk, ensure_ascii=False, default=str)\<close> turns an envelope into a JSON
  document: the dictionary entries in the order the envelope was built, a value the encoder
  has no form for (here: a timestamp) replaced by its \<open>str\<close>. The document is kept as a
  tree; its rendering as text, which holds no line break, is the library's.
\<close>

datatype json =
    JNull | JInt int | JNumber rat | JString string
  | JArray "json list" | JObject "(string \<times> json) list"

definition encode_value :: "env \<Rightarrow> sqlval \<Rightarrow> json" where
  "encode_value ev v =
     (case v of
        SqlNull \<Rightarrow> JNull
      | SqlInt i \<Rightarrow> JInt i
      | SqlText s \<Rightarrow> JString s
      | SqlTimestamp ts \<Rightarrow> JString (str_datetime ev ts))"

definition encode_row :: "env \<Rightarrow> row \<Rightarrow> json" where
  "encode_row ev r = JObject (map (\<lambda>(c, v). (c, encode_value ev v)) r)"

definition encode_metadata :: "metadata \<Rightarrow> json" where
  "encode_metadata m =
     JObject [(''table_name'', JString (md_table_name m)),
              (''time_field'', JString (md_time_field m))]"

definition encode_window_chunk :: "env \<Rightarrow> window_chunk \<Rightarrow> json" where
  "encode_window_chunk ev c =
     JObject [(''window_index'', JInt (wc_window_index c)),
              (''window_start'', JString (wc_window_start c)),
              (''window_end'', JString (wc_window_end c)),
              (''chunk_offset'', JInt (wc_chunk_offset c)),
              (''chunk_size'', JInt (wc_chunk_size c)),
              (''total_records_so_far'', JInt (wc_total_records_so_far c)),
              (''data'', JArray (map (encode_row ev) (wc_data c))),
              (''metadata'', encode_metadata (wc_metadata c))]"

definition encode_flat_chunk :: "env \<Rightarrow> flat_chunk \<Rightarrow> json" where
  "encode_flat_chunk ev c =
     JObject [(''chunk_index'', JInt (fc_chunk_index c)),
              (''chunk_offset'', JInt (fc_chunk_offset c)),
              (''chunk_size'', JInt (fc_chunk_size c)),
              (''total_count'', JInt (fc_total_count c)),
              (''progress'', JNumber (fc_progress c)),
              (''data'', JArray (map (encode_row ev) (fc_data c))),
              (''metadata'', encode_metadata (fc_metadata c))]"

text \<open>
  What \<open>export_to_file\<close> leaves at the output path: the lines of a line-delimited file, one
  JSON document, or the table a data frame is written from.
\<close>

datatype export_file = Jsonl "json list" | Json_Document json | Csv "row list" | Parquet "row list"

text \<open>The stream chosen by \<open>use_time_windows\<close>: each chunk as its document and its records.\<close>

definition data_stream ::
  "fetcher \<Rightarrow> env \<Rightarrow> string \<Rightarrow> time_input \<Rightarrow> time_input \<Rightarrow> bool \<Rightarrow> string option
     \<Rightarrow> string list option \<Rightarrow> ((json \<times> row list) list \<times> error option) option" where
  "data_stream f ev table_name start_time end_time use_time_windows where_conditions
       select_fields =
     (if use_time_windows then
        (case stream_data_by_time_windows f ev table_name start_time end_time where_conditions
                select_fields of
           None \<Rightarrow> None
         | Some (evs, outcome) \<Rightarrow>
             Some (map (\<lambda>c. (encode_window_chunk ev c, wc_data c)) (yields evs), outcome))
      else
        (case stream_data_by_chunks f ev table_name start_time end_time where_conditions
                select_fields of
           (evs, outcome) \<Rightarrow>
             Some (map (\<lambda>c. (encode_flat_chunk ev c, fc_data c)) (yields evs), outcome)))"

text \<open>
  \<open>export_to_file\<close>. The line-delimited branch opens the file and writes a line per chunk
  as the chunks arrive, so a stream that raises leaves the lines written so far. The other
  branches collect the whole stream first and write nothing when it raises; the tabular ones
  write nothing for an empty result. For a format of no branch the stream is never started.
\<close>

definition export_to_file ::
  "fetcher \<Rightarrow> env \<Rightarrow> string \<Rightarrow> time_input \<Rightarrow> time_input \<Rightarrow> string \<Rightarrow> bool \<Rightarrow> string option
     \<Rightarrow> string list option \<Rightarrow> (export_file option \<times> error option) option" where
  "export_to_file f ev table_name start_time end_time output_format use_time_windows
       where_conditions select_fields =
     (if output_format \<noteq> ''jsonl'' \<and> output_format \<noteq> ''json'' \<and> output_format \<noteq> ''csv''
         \<and> output_format \<noteq> ''parquet'' then Some (None, None)
      else
        (case data_stream f ev table_name start_time end_time use_time_windows where_conditions
                select_fields of
           None \<Rightarrow> None
         | Some (chunks, outcome) \<Rightarrow>
             Some
               (if output_format = ''jsonl'' then (Some (Jsonl (map fst chunks)), outcome)
                else if outcome \<noteq> None then (None, outcome)
                else if output_format = ''json'' then
                  (Some (Json_Document (JArray (map fst chunks))), None)
                else if concat (map snd chunks) = [] then (None, None)
                else if output_format = ''csv'' then (Some (Csv (concat (map snd chunks))), None)
                else (Some (Parquet (concat (map snd chunks))), None))))"

text \<open>
  Modelled from the spec: the re-reading of a line-delimited export, which the repository
  does not contain. Each line is parsed as a JSON document and read back as a chunk
  envelope: a JSON string is a text, a JSON integer an integer, \<open>null\<close> is \<open>NULL\<close>; entries are
  looked up by key.
\<close>

definition decode_value :: "json \<Rightarrow> sqlval option" where
  \<comment> \<open>Modelled from the spec: the value a parsed JSON value stands for.\<close>
  "decode_value j =
     (case j of
        JNull \<Rightarrow> Some SqlNull
      | JInt i \<Rightarrow> Some (SqlInt i)
      | JString s \<Rightarrow> Some (SqlText s)
      | _ \<Rightarrow> None)"

definition decode_row :: "json \<Rightarrow> row option" where
  \<comment> \<open>Modelled from the spec: a record read back from a JSON object.\<close>
  "decode_row j =
     (case j of
        JObject kvs \<Rightarrow> those (map (\<lambda>(c, v). map_option (Pair c) (decode_value v)) kvs)
      | _ \<Rightarrow> None)"

definition decode_rows :: "json \<Rightarrow> row list option" where
  \<comment> \<open>Modelled from the spec: the \<open>data\<close> entry read back from a JSON array.\<close>
  "decode_rows j = (case j of JArray js \<Rightarrow> those (map decode_row js) | _ \<Rightarrow> None)"

definition decode_metadata :: "json \<Rightarrow> metadata option" where
  \<comment> \<open>Modelled from the spec: the \<open>metadata\<close> entry read back.\<close>
  "decode_metadata j =
     (case j of
        JObject kvs \<Rightarrow>
          (case (map_of kvs ''table_name'', map_of kvs ''time_field'') of
             (Some (JString tn), Some (JString tf)) \<Rightarrow>
               Some \<lparr>md_table_name = tn, md_time_field = tf\<rparr>
           | _ \<Rightarrow> None)
      | _ \<Rightarrow> None)"

definition decode_window_chunk :: "json \<Rightarrow> window_chunk option" where
  \<comment> \<open>Modelled from the spec: a windowed envelope read back from a line.\<close>
  "decode_window_chunk j =
     (case j of
        JObject kvs \<Rightarrow>
          (case (map_of kvs ''window_index'', map_of kvs ''window_start'',
                 map_of kvs ''window_end'', map_of kvs ''chunk_offset'',
                 map_of kvs ''chunk_size'', map_of kvs ''total_records_so_far'',
                 Option.bind (map_of kvs ''data'') decode_rows,
                 Option.bind (map_of kvs ''metadata'') decode_metadata) of
             (Some (JInt i), Some (JString a), Some (JString b), Some (JInt off),
              Some (JInt sz), Some (JInt tot), Some rows, Some m) \<Rightarrow>
               Some \<lparr>wc_window_index = i, wc_window_start = a, wc_window_end = b,
                     wc_chunk_offset = off, wc_chunk_size = sz,
                     wc_total_records_so_far = tot, wc_data = rows, wc_metadata = m\<rparr>
           | _ \<Rightarrow> None)
      | _ \<Rightarrow> None)"

definition decode_flat_chunk :: "json \<Rightarrow> flat_chunk option" where
  \<comment> \<open>Modelled from the spec: a flat envelope read back from a line.\<close>
  "decode_flat_chunk j =
     (case j of
        JObject kvs \<Rightarrow>
          (case (map_of kvs ''chunk_index'', map_of kvs ''chunk_offset'',
                 map_of kvs ''chunk_size'', map_of kvs ''total_count'',
                 map_of kvs ''progress'',
                 Option.bind (map_of kvs ''data'') decode_rows,
                 Option.bind (map_of kvs ''metadata'') decode_metadata) of
             (Some (JInt i), Some (JInt off), Some (JInt sz), Some (JInt n),
              Some (JNumber p), Some rows, Some m) \<Rightarrow>
               Some \<lparr>fc_chunk_index = i, fc_chunk_offset = off, fc_chunk_size = sz,
                     fc_total_count = n, fc_progress = p, fc_data = rows, fc_metadata = m\<rparr>
           | _ \<Rightarrow> None)
      | _ \<Rightarrow> None)"

definition read_jsonl :: "(json \<Rightarrow> 'c option) \<Rightarrow> export_file \<Rightarrow> 'c list option" where
  \<comment> \<open>Modelled from the spec: re-reading a line-delimited file, line by line.\<close>
  "read_jsonl decode written =
     (case written of Jsonl file_lines \<Rightarrow> those (map decode file_lines) | _ \<Rightarrow> None)"

section \<open>Notions used in the statements\<close>

text \<open>Two datetimes can be compared when both are naive or both are aware.\<close>

definition same_awareness :: "datetime \<Rightarrow> datetime \<Rightarrow> bool" where
  "same_awareness a b = ((tzinfo a = None) = (tzinfo b = None))"

text \<open>The window interval of a fetcher in microseconds.\<close>

definition interval_us :: "fetcher \<Rightarrow> int" where
  "interval_us f = time_interval_minutes f * 60000000"

text \<open>Integer division rounding up.\<close>

definition ceil_div :: "int \<Rightarrow> int \<Rightarrow> int" where
  "ceil_div a b = - ((- a) div b)"

text \<open>
  The \<open>k\<close>-th window of a range from \<open>s\<close> to \<open>e\<close> cut into steps of \<open>d\<close> microseconds: it
  starts \<open>k\<close> steps after \<open>s\<close> and ends one step later, or at \<open>e\<close> if that comes first.
\<close>

definition window_at :: "datetime \<Rightarrow> datetime \<Rightarrow> int \<Rightarrow> nat \<Rightarrow> datetime \<times> datetime" where
  "window_at s e d k =
     (s\<lparr>naive_us := naive_us s + int k * d\<rparr>,
      if instant e < instant s + (int k + 1) * d then e
      else s\<lparr>naive_us := naive_us s + (int k + 1) * d\<rparr>)"

text \<open>The full answer to a fetch statement, before \<open>OFFSET\<close> and \<open>LIMIT\<close>.\<close>

definition selection ::
  "env \<Rightarrow> table_config \<Rightarrow> string \<Rightarrow> datetime \<Rightarrow> datetime \<Rightarrow> string option
     \<Rightarrow> string list option \<Rightarrow> row list" where
  "selection ev config table_name start_dt end_dt where_conditions select_fields =
     map (\<lambda>r. dict (project (selected_columns ev table_name (truthy_list select_fields)) r))
       (sort_key (order_key (order_fields config))
          (matching ev table_name (time_field config) start_dt end_dt
             (truthy_str where_conditions)))"

text \<open>
  The fetch statements of a call are ones the store accepts: the page size fits the type of
  \<open>LIMIT\<close> and the field list, if one is given, names columns of the table only.
\<close>

definition fetchable :: "fetcher \<Rightarrow> env \<Rightarrow> string \<Rightarrow> string list option \<Rightarrow> bool" where
  "fetchable f ev table_name select_fields =
     (chunk_size f \<le> bigint_max
      \<and> list_all (\<lambda>c. c \<in> set (db_columns ev table_name))
            (selected_columns ev table_name (truthy_list select_fields)))"

text \<open>The fetch statement and the envelope that the flat loop builds at an offset.\<close>

definition fetch_query_of ::
  "fetcher \<Rightarrow> table_config \<Rightarrow> string \<Rightarrow> datetime \<Rightarrow> datetime \<Rightarrow> string option
     \<Rightarrow> string list option \<Rightarrow> int \<Rightarrow> query" where
  "fetch_query_of f config table_name start_dt end_dt where_conditions select_fields offset =
     Fetch_Query \<lparr>fq_fields = truthy_list select_fields, fq_table = table_name,
         fq_time_field = time_field config, fq_start = start_dt, fq_end = end_dt,
         fq_where = truthy_str where_conditions, fq_order = order_fields config,
         fq_limit = chunk_size f, fq_offset = offset\<rparr>"

definition flat_chunk_of ::
  "table_config \<Rightarrow> string \<Rightarrow> int \<Rightarrow> int \<Rightarrow> int \<Rightarrow> row list \<Rightarrow> flat_chunk" where
  "flat_chunk_of config table_name total_count index offset rows =
     \<lparr>fc_chunk_index = index, fc_chunk_offset = offset, fc_chunk_size = int (length rows),
      fc_total_count = total_count,
      fc_progress = of_int (offset + int (length rows)) / of_int total_count,
      fc_data = rows,
      fc_metadata = \<lparr>md_table_name = table_name, md_time_field = time_field config\<rparr>\<rparr>"

text \<open>
  \<open>chain a b ws\<close>: the windows \<open>ws\<close> are non-empty, each starts at the instant where the one
  before it ends, the first starts at \<open>a\<close> and the last ends at \<open>b\<close>; with no window at all,
  the range from \<open>a\<close> to \<open>b\<close> is empty.
\<close>

fun chain :: "int \<Rightarrow> int \<Rightarrow> (datetime \<times> datetime) list \<Rightarrow> bool" where
  "chain a b [] = (b \<le> a)"
| "chain a b ((x, y) # ws) =
     (instant x = a \<and> a < instant y \<and> instant y \<le> b \<and> chain (instant y) b ws)"

text \<open>The envelope that the windowed loop builds at an offset of window \<open>i\<close>.\<close>

definition window_chunk_of ::
  "env \<Rightarrow> table_config \<Rightarrow> string \<Rightarrow> int \<Rightarrow> datetime \<Rightarrow> datetime \<Rightarrow> int \<Rightarrow> int
     \<Rightarrow> row list \<Rightarrow> window_chunk" where
  "window_chunk_of ev config table_name i window_start window_end offset total_records rows =
     \<lparr>wc_window_index = i, wc_window_start = isoformat ev window_start,
      wc_window_end = isoformat ev window_end, wc_chunk_offset = offset,
      wc_chunk_size = int (length rows),
      wc_total_records_so_far = total_records + int (length rows), wc_data = rows,
      wc_metadata = \<lparr>md_table_name = table_name, md_time_field = time_field config\<rparr>\<rparr>"

text \<open>
  \<open>window_page\<close>: the envelope is that of a page of the given window: it carries the
  window's two ends and, as its data, the rows of the window's ordered selection from its
  \<open>chunk_offset\<close> on, at most \<open>chunk_size\<close> of them. \<open>from_window\<close>: the envelope's
  \<open>window_index\<close> is a position in the list of windows, counted from 1, and the envelope is a
  page of the window at that position.
\<close>

definition window_page ::
  "fetcher \<Rightarrow> env \<Rightarrow> table_config \<Rightarrow> string \<Rightarrow> string option \<Rightarrow> string list option
     \<Rightarrow> datetime \<times> datetime \<Rightarrow> window_chunk \<Rightarrow> bool" where
  "window_page f ev config table_name where_conditions select_fields window c =
     (wc_window_start c = isoformat ev (fst window)
      \<and> wc_window_end c = isoformat ev (snd window)
      \<and> 0 \<le> wc_chunk_offset c
      \<and> wc_data c = take (nat (chunk_size f)) (drop (nat (wc_chunk_offset c))
            (selection ev config table_name (fst window) (snd window) where_conditions
               select_fields))
      \<and> wc_chunk_size c = int (length (wc_data c))
      \<and> wc_metadata c = \<lparr>md_table_name = table_name, md_time_field = time_field config\<rparr>)"

definition from_window ::
  "fetcher \<Rightarrow> env \<Rightarrow> string \<Rightarrow> string option \<Rightarrow> string list option
     \<Rightarrow> (datetime \<times> datetime) list \<Rightarrow> window_chunk \<Rightarrow> bool" where
  "from_window f ev table_name where_conditions select_fields windows c =
     (case table_config_of table_name of
        None \<Rightarrow> False
      | Some config \<Rightarrow>
          1 \<le> wc_window_index c \<and> wc_window_index c \<le> int (length windows)
          \<and> window_page f ev config table_name where_conditions select_fields
               (windows ! nat (wc_window_index c - 1)) c)"

text \<open>A windowed chunk is a full page when its size is the configured chunk size.\<close>

definition window_full :: "fetcher \<Rightarrow> window_chunk \<Rightarrow> bool" where
  "window_full f c = (wc_chunk_size c = chunk_size f)"

text \<open>
  \<open>running total cs\<close>: each chunk of \<open>cs\<close> is non-empty and carries the total before it plus
  its own size. \<open>index_ok prev cs\<close>: the window indices of \<open>cs\<close> never fall, starting from
  \<open>prev\<close>, and a chunk whose index is larger than the one before it has offset 0.
\<close>

fun running :: "int \<Rightarrow> window_chunk list \<Rightarrow> bool" where
  "running total_records [] = True"
| "running total_records (c # cs) =
     (0 < wc_chunk_size c
      \<and> wc_total_records_so_far c = total_records + wc_chunk_size c
      \<and> running (wc_total_records_so_far c) cs)"

fun index_ok :: "int \<Rightarrow> window_chunk list \<Rightarrow> bool" where
  "index_ok prev [] = True"
| "index_ok prev (c # cs) =
     (prev \<le> wc_window_index c
      \<and> (prev < wc_window_index c \<longrightarrow> wc_chunk_offset c = 0)
      \<and> index_ok (wc_window_index c) cs)"

text \<open>
  Pacing of a log: \<open>paced full\<close> holds when each yielded chunk is followed at once by a pause
  exactly if it satisfies \<open>full\<close>, and no pause stands anywhere else.
\<close>

fun paced :: "('c \<Rightarrow> bool) \<Rightarrow> 'c event list \<Rightarrow> bool" where
  "paced full [] = True"
| "paced full (Yield c # Sleep # es) = (full c \<and> paced full es)"
| "paced full (Yield c # es) = (\<not> full c \<and> paced full es)"
| "paced full (Sleep # es) = False"
| "paced full (Query q # es) = paced full es"

definition pause_after :: "'c event list \<Rightarrow> nat \<Rightarrow> bool" where
  "pause_after evs i = (Suc i < length evs \<and> evs ! Suc i = Sleep)"

text \<open>
  What a reader of the exported text finds in place of a value: the encoder writes a
  timestamp as its \<open>str\<close>, so it comes back as that text; every other value comes back as
  it was. \<open>json_native rows\<close>: no value of \<open>rows\<close> is a timestamp.
\<close>

definition value_as_read :: "env \<Rightarrow> sqlval \<Rightarrow> sqlval" where
  "value_as_read ev v = (case v of SqlTimestamp ts \<Rightarrow> SqlText (str_datetime ev ts) | _ \<Rightarrow> v)"

definition rows_as_read :: "env \<Rightarrow> row list \<Rightarrow> row list" where
  "rows_as_read ev rows = map (map (\<lambda>(c, v). (c, value_as_read ev v))) rows"

definition window_chunk_as_read :: "env \<Rightarrow> window_chunk \<Rightarrow> window_chunk" where
  "window_chunk_as_read ev c = c\<lparr>wc_data := rows_as_read ev (wc_data c)\<rparr>"

definition flat_chunk_as_read :: "env \<Rightarrow> flat_chunk \<Rightarrow> flat_chunk" where
  "flat_chunk_as_read ev c = c\<lparr>fc_data := rows_as_read ev (fc_data c)\<rparr>"

fun is_timestamp :: "sqlval \<Rightarrow> bool" where
  "is_timestamp (SqlTimestamp ts) = True"
| "is_timestamp v = False"

definition json_native :: "row list \<Rightarrow> bool" where
  "json_native rows = list_all (list_all (\<lambda>(c, v). \<not> is_timestamp v)) rows"

section \<open>Concrete inputs\<close>

text \<open>
  Instants of 2024-01-01 (UTC) by the minute and of 9999-12-31 (UTC), the last day a datetime
  can hold, by the second; and an environment whose store holds the given rows in the table
  \<open>tweets\<close>, of the two columns \<open>created_at_ts\<close> and \<open>tweet_id\<close>, whose \<open>strptime\<close> reads
  the one date string it is given and whose predicate fragments hold of every row.
\<close>

definition example_time :: "int \<Rightarrow> datetime" where
  "example_time minute = \<lparr>naive_us = 63839664000000000 + minute * 60000000, tzinfo = utc\<rparr>"

definition last_day_time :: "int \<Rightarrow> datetime" where
  "last_day_time second = \<lparr>naive_us = 315537811200000000 + second * 1000000, tzinfo = utc\<rparr>"

definition example_env :: "row list \<Rightarrow> env" where
  "example_env rows =
     \<lparr>strptime = (\<lambda>s fmt. if s = ''2024-01-01'' \<and> fmt = ''%Y-%m-%d''
                            then Some \<lparr>naive_us = 63839664000000000, tzinfo = None\<rparr> else None),
      isoformat = (\<lambda>d. []),
      str_datetime = (\<lambda>ts. if ts = 63839664000000000 then ''2024-01-01 00:00:00+00:00''
                           else ''later''),
      db_columns = (\<lambda>t. if t = ''tweets'' then [''created_at_ts'', ''tweet_id''] else []),
      db_rows = (\<lambda>t. if t = ''tweets'' then rows else []),
      db_where = (\<lambda>p r. True)\<rparr>"

text \<open>
  \<open>n\<close> rows for the table \<open>tweets\<close>, one per second from 2024-01-01T00:00:00 UTC.
\<close>

definition example_rows :: "nat \<Rightarrow> row list" where
  "example_rows n =
     map (\<lambda>i. [(''created_at_ts'', SqlTimestamp (63839664000000000 + int i * 1000000)),
               (''tweet_id'', SqlInt (int i))]) [0..<n]"

text \<open>Rows for the table \<open>tweets\<close> at the given seconds of 2024-01-01 UTC.\<close>

definition example_rows_at :: "int list \<Rightarrow> row list" where
  "example_rows_at seconds =
     map (\<lambda>s. [(''created_at_ts'', SqlTimestamp (63839664000000000 + s * 1000000)),
               (''tweet_id'', SqlInt s)]) seconds"

text \<open>The registry entry of \<open>tweets\<close>.\<close>

definition tweets_config :: table_config where
  "tweets_config = \<lparr>time_field = ''created_at_ts'', primary_key = ''tweet_id'',
        order_fields = [''created_at_ts'', ''tweet_id'']\<rparr>"

section \<open>The constructor\<close>

text \<open>
  C9: constructing a fetcher never fails. A chunk size that is \<open>None\<close> or \<open>0\<close> becomes the
  default 1000, a zero interval becomes 60 and a zero connection bound becomes 3; negative
  values are kept as given.
\<close>

theorem init_falsy_defaults:
  "chunk_size (init None ti mc) = 1000
   \<and> chunk_size (init (Some 0) ti mc) = 1000
   \<and> time_interval_minutes (init cs (Some 0) mc) = 60
   \<and> max_connections (init cs ti (Some 0)) = 3
   \<and> (n < 0 \<longrightarrow> chunk_size (init (Some n) ti mc) = n
          \<and> time_interval_minutes (init cs (Some n) mc) = n
          \<and> max_connections (init cs ti (Some n)) = n)"
  by (simp add: init_def or_default_def DEFAULT_CONFIG_def)

theorem init_falsy_defaults_witness:
  "(-5 :: int) < 0 \<and> chunk_size (init (Some (-5)) None None) = -5
     \<and> time_interval_minutes (init None (Some (-5)) None) = -5
     \<and> max_connections (init None None (Some (-5))) = -5
     \<and> chunk_size (init (Some 0) None None) = 1000"
  using init_falsy_defaults [of None None None "-5"] by simp

section \<open>Arithmetic of rounding up\<close>

lemma ceil_div_ceiling: "ceil_div a b = \<lceil>real_of_int a / real_of_int b\<rceil>"
  by (simp add: ceil_div_def ceiling_divide_eq_div)

lemma ceil_div_nonpos: "0 < b \<Longrightarrow> a \<le> 0 \<Longrightarrow> ceil_div a b \<le> 0"
  by (simp add: ceil_div_def pos_imp_zdiv_nonneg_iff)

lemma ceil_div_pos: "0 < b \<Longrightarrow> 0 < a \<Longrightarrow> 0 < ceil_div a b"
  by (simp add: ceil_div_def neg_imp_zdiv_neg_iff pos_imp_zdiv_neg_iff)

lemma ceil_div_step: "0 < b \<Longrightarrow> ceil_div (a - b) b = ceil_div a b - 1"
proof -
  assume b: "0 < b"
  have "(- a + b) div b = (- a) div b + 1" using b by (intro div_add_self2) simp
  moreover have "- a + b = - (a - b)" by simp
  ultimately have "(- (a - b)) div b = (- a) div b + 1" by simp
  then show ?thesis unfolding ceil_div_def by linarith
qed

lemma ceil_div_one: "0 < a \<Longrightarrow> a < b \<Longrightarrow> ceil_div a b = 1"
  unfolding ceil_div_def by (smt (verit, best) div_minus_minus div_pos_neg_trivial)

lemma ceil_div_le_iff:
  assumes "0 < b"
  shows "ceil_div a b \<le> k \<longleftrightarrow> a \<le> k * b"
proof -
  have "ceil_div a b \<le> k \<longleftrightarrow> real_of_int a / real_of_int b \<le> real_of_int k"
    by (simp add: ceil_div_ceiling ceiling_le_iff)
  also have "\<dots> \<longleftrightarrow> real_of_int a \<le> real_of_int k * real_of_int b"
    using assms by (simp add: pos_divide_le_eq)
  also have "\<dots> \<longleftrightarrow> a \<le> k * b"
    by (metis of_int_le_iff of_int_mult)
  finally show ?thesis .
qed

lemma div_unique_int:
  "0 < (d::int) \<Longrightarrow> i * d \<le> x \<Longrightarrow> x < (i + 1) * d \<Longrightarrow> x div d = i"
  using int_div_pos_eq [of x d i "x - i * d"] by (simp add: algebra_simps)

lemma div_bounds_int:
  assumes "0 < (d::int)"
  shows "(x div d) * d \<le> x" and "x < (x div d + 1) * d"
proof -
  have eq: "(x div d) * d = x - x mod d"
    by (simp add: minus_mod_eq_div_mult)
  have "0 \<le> x mod d" "x mod d < d" using assms by simp_all
  then show "(x div d) * d \<le> x" and "x < (x div d + 1) * d"
    unfolding distrib_right eq by linarith+
qed

section \<open>Datetime comparison and arithmetic\<close>

lemma dt_add_zero: "valid_datetime d \<Longrightarrow> dt_add d 0 = Inr d"
  by (simp add: dt_add_def valid_datetime_def)

lemma dt_min_less: "dt_less a b = Inr True \<Longrightarrow> dt_min a b = Inr a"
  by (auto simp: dt_min_def dt_less_def split: option.splits)

lemma dt_less_instant: "same_awareness a b \<Longrightarrow> dt_less a b = Inr (instant a < instant b)"
  by (auto simp: same_awareness_def dt_less_def instant_def split: option.splits)

lemma dt_less_Inr_same: "dt_less a b = Inr r \<Longrightarrow> same_awareness a b"
  by (auto simp: same_awareness_def dt_less_def split: option.splits)

lemma instant_shift [simp]: "instant (a\<lparr>naive_us := x\<rparr>) = instant a + (x - naive_us a)"
  by (simp add: instant_def)

lemma same_awareness_shift [simp]: "same_awareness (a\<lparr>naive_us := x\<rparr>) b = same_awareness a b"
  "same_awareness b (a\<lparr>naive_us := x\<rparr>) = same_awareness b a"
  by (simp_all add: same_awareness_def)

lemma window_at_shift:
  "window_at (cur\<lparr>naive_us := naive_us cur + d\<rparr>) e d k = window_at cur e d (Suc k)"
  by (simp add: window_at_def algebra_simps)

lemma timedelta_minutes_ok:
  "0 \<le> m \<Longrightarrow> m * 60000000 \<le> datetime_max_us \<Longrightarrow> timedelta_minutes m = Inr (m * 60000000)"
  unfolding timedelta_minutes_def datetime_max_us_def by auto

lemma instant_window_at_fst: "instant (fst (window_at s e d k)) = instant s + int k * d"
  by (simp add: window_at_def)

lemma instant_window_at_snd:
  "instant (snd (window_at s e d k)) = min (instant s + (int k + 1) * d) (instant e)"
  by (simp add: window_at_def min_def)

section \<open>Window generation\<close>

lemma windows_loop_zero_diverges:
  assumes "valid_datetime cur" "dt_less cur e = Inr True"
  shows "windows_loop 0 e acc cur = None"
proof (rule ccontr)
  assume "windows_loop 0 e acc cur \<noteq> None"
  then obtain y where y: "windows_loop 0 e acc cur = Some y" by auto
  have "(0::int) = 0 \<and> e = e \<and> cur = cur \<longrightarrow> False"
  proof (rule windows_loop.raw_induct
      [where P = "\<lambda>m e' acc' cur' y'. m = 0 \<and> e' = e \<and> cur' = cur \<longrightarrow> False", OF _ y])
    fix loop minutes end_dt windows current_time r
    assume IH: "\<And>m e' acc' cur' y'. loop m e' acc' cur' = Some y' \<Longrightarrow>
                  m = 0 \<and> e' = e \<and> cur' = cur \<longrightarrow> False"
      and step: "(case dt_less current_time end_dt of Inl e \<Rightarrow> Some (Inl e)
      | Inr continue \<Rightarrow>
          if continue
          then case timedelta_minutes minutes of Inl e \<Rightarrow> Some (Inl e)
               | Inr delta \<Rightarrow>
                   case dt_add current_time delta of Inl e \<Rightarrow> Some (Inl e)
                   | Inr raw_end \<Rightarrow>
                       case dt_min raw_end end_dt of Inl e \<Rightarrow> Some (Inl e)
                       | Inr window_end \<Rightarrow>
                           loop minutes end_dt
                            (windows @ [(current_time, window_end)])
                            window_end
          else Some (Inr windows)) = Some r"
    show "minutes = 0 \<and> end_dt = e \<and> current_time = cur \<longrightarrow> False"
    proof
      assume h: "minutes = 0 \<and> end_dt = e \<and> current_time = cur"
      with step assms have "loop 0 e (windows @ [(cur, cur)]) cur = Some r"
        by (simp add: timedelta_minutes_def dt_add_zero dt_min_less)
      with IH show False by blast
    qed
  qed
  then show False by simp
qed

lemma windows_loop_closed_form:
  assumes "0 < m" and "same_awareness cur e" and "0 \<le> naive_us cur"
    and "int n = max 0 (ceil_div (instant e - instant cur) (m * 60000000))"
    and "naive_us cur + int n * (m * 60000000) \<le> datetime_max_us"
  shows "windows_loop m e acc cur = Some (Inr (acc @ map (window_at cur e (m * 60000000)) [0..<n]))"
  using assms
proof (induction n arbitrary: cur acc)
  case 0
  have "\<not> instant cur < instant e"
  proof
    assume "instant cur < instant e"
    then have "0 < ceil_div (instant e - instant cur) (m * 60000000)"
      using 0 by (intro ceil_div_pos) auto
    with 0 show False by simp
  qed
  then have "instant e \<le> instant cur" by simp
  with 0 show ?case
    by (subst windows_loop.simps) (simp add: dt_less_instant)
next
  case (Suc n)
  let ?d = "m * 60000000"
  have dpos: "0 < ?d" using Suc.prems by simp
  have lt: "instant cur < instant e"
  proof (rule ccontr)
    assume "\<not> instant cur < instant e"
    then have "ceil_div (instant e - instant cur) ?d \<le> 0"
      using dpos by (intro ceil_div_nonpos) auto
    with Suc.prems(4) show False by simp
  qed
  have cd: "ceil_div (instant e - instant cur) ?d = int n + 1"
    using Suc.prems(4) by (simp add: max_def split: if_splits)
  have "0 \<le> int n * ?d" using dpos by simp
  then have fits: "naive_us cur + ?d \<le> datetime_max_us"
    using Suc.prems(5) by (simp add: algebra_simps)
  then have td: "timedelta_minutes m = Inr ?d"
    using Suc.prems by (intro timedelta_minutes_ok) auto
  have add: "dt_add cur ?d = Inr (cur\<lparr>naive_us := naive_us cur + ?d\<rparr>)"
    using fits Suc.prems(3) dpos by (simp add: dt_add_def)
  let ?raw = "cur\<lparr>naive_us := naive_us cur + ?d\<rparr>"
  have sa: "same_awareness e cur"
    using Suc.prems(2) by (auto simp: same_awareness_def)
  have mn: "dt_min ?raw e = Inr (snd (window_at cur e ?d 0))"
    using sa by (simp add: dt_min_def dt_less_instant window_at_def)
  have unfold: "windows_loop m e acc cur =
      windows_loop m e (acc @ [window_at cur e ?d 0]) (snd (window_at cur e ?d 0))"
    using lt Suc.prems(2) td add mn
    by (subst windows_loop.simps) (simp add: dt_less_instant window_at_def)
  show ?case
  proof (cases "instant e < instant cur + ?d")
    case True
    then have "ceil_div (instant e - instant cur) ?d = 1"
      using lt by (intro ceil_div_one) auto
    with cd have n0: "n = 0" by simp
    have "windows_loop m e (acc @ [window_at cur e ?d 0]) e = Some (Inr (acc @ [window_at cur e ?d 0]))"
      by (subst windows_loop.simps) (simp add: dt_less_instant same_awareness_def)
    with unfold True n0 show ?thesis by (simp add: window_at_def)
  next
    case False
    have "ceil_div (instant e - instant ?raw) ?d = int n"
      using ceil_div_step [OF dpos, of "instant e - instant cur"] cd by (simp add: algebra_simps)
    then have p4: "int n = max 0 (ceil_div (instant e - instant ?raw) ?d)" by simp
    have p5: "naive_us ?raw + int n * ?d \<le> datetime_max_us"
      using Suc.prems(5) by (simp add: algebra_simps)
    have p3: "0 \<le> naive_us ?raw" using Suc.prems(3) dpos by simp
    have p2: "same_awareness ?raw e" using Suc.prems(2) by simp
    have IH: "windows_loop m e (acc @ [window_at cur e ?d 0]) ?raw =
       Some (Inr ((acc @ [window_at cur e ?d 0]) @ map (window_at ?raw e ?d) [0..<n]))"
      by (rule Suc.IH [OF Suc.prems(1) p2 p3 p4 p5])
    have up: "[0..<Suc n] = 0 # map Suc [0..<n]"
      by (simp add: map_Suc_upt upt_conv_Cons del: upt_Suc)
    have "acc @ map (window_at cur e ?d) [0..<Suc n] =
          (acc @ [window_at cur e ?d 0]) @ map (window_at ?raw e ?d) [0..<n]"
      by (subst up) (simp add: window_at_shift comp_def)
    moreover have "snd (window_at cur e ?d 0) = ?raw"
      using False by (simp add: window_at_def)
    ultimately show ?thesis
      using unfold IH by simp
  qed
qed

lemma windows_closed_form_props:
  assumes d: "0 < d" and le: "instant s \<le> instant e"
    and n: "int n = ceil_div (instant e - instant s) d"
    and ws: "ws = map (window_at s e d) [0..<n]"
  shows "ws \<noteq> [] \<longrightarrow> fst (hd ws) = s \<and> instant (snd (last ws)) = instant e
            \<and> (tzinfo s = tzinfo e \<longrightarrow> snd (last ws) = e)"
    and "\<forall>i. Suc i < length ws \<longrightarrow> fst (ws ! Suc i) = snd (ws ! i)"
    and "\<forall>i<length ws. instant (fst (ws ! i)) < instant (snd (ws ! i))"
    and "\<forall>t. instant s \<le> t \<and> t < instant e \<longrightarrow>
           (\<exists>!i. i < length ws \<and> instant (fst (ws ! i)) \<le> t \<and> t < instant (snd (ws ! i)))"
proof -
  have len: "length ws = n" using ws by simp
  have below: "instant s + int k * d < instant e" if "k < n" for k
  proof -
    have "\<not> ceil_div (instant e - instant s) d \<le> int k" using that n by simp
    then show ?thesis using ceil_div_le_iff [OF d, of "instant e - instant s" "int k"] by simp
  qed
  have above: "instant e \<le> instant s + int n * d"
    using ceil_div_le_iff [OF d, of "instant e - instant s" "int n"] n by simp
  show "ws \<noteq> [] \<longrightarrow> fst (hd ws) = s \<and> instant (snd (last ws)) = instant e
            \<and> (tzinfo s = tzinfo e \<longrightarrow> snd (last ws) = e)"
  proof
    assume "ws \<noteq> []"
    then have npos: "0 < n" using len by auto
    have "hd ws = window_at s e d 0" using npos ws by (simp add: hd_map upt_conv_Cons del: upt_Suc)
    then have h: "fst (hd ws) = s" by (simp add: window_at_def)
    have lw: "last ws = window_at s e d (n - 1)" using npos ws
      by (cases n) (simp_all add: last_map)
    then have "instant (snd (last ws)) = min (instant s + (int (n - 1) + 1) * d) (instant e)"
      by (simp add: instant_window_at_snd)
    also have "int (n - 1) + 1 = int n" using npos by simp
    finally have i: "instant (snd (last ws)) = instant e" using above by simp
    have "snd (last ws) = e" if tz: "tzinfo s = tzinfo e"
    proof -
      have "tzinfo (snd (last ws)) = tzinfo e" using lw tz by (simp add: window_at_def)
      moreover from this i have "naive_us (snd (last ws)) = naive_us e"
        by (simp add: instant_def)
      ultimately show ?thesis by simp
    qed
    with h i show "fst (hd ws) = s \<and> instant (snd (last ws)) = instant e
            \<and> (tzinfo s = tzinfo e \<longrightarrow> snd (last ws) = e)" by simp
  qed
  show "\<forall>i. Suc i < length ws \<longrightarrow> fst (ws ! Suc i) = snd (ws ! i)"
  proof (intro allI impI)
    fix i assume "Suc i < length ws"
    then have i: "Suc i < n" using len by simp
    from below [OF i] have "\<not> instant e < instant s + (int i + 1) * d" by (simp add: algebra_simps)
    then show "fst (ws ! Suc i) = snd (ws ! i)"
      using i ws by (simp add: window_at_def algebra_simps)
  qed
  show "\<forall>i<length ws. instant (fst (ws ! i)) < instant (snd (ws ! i))"
  proof (intro allI impI)
    fix i assume "i < length ws"
    then have i: "i < n" using len by simp
    have "instant (fst (ws ! i)) = instant s + int i * d"
      using i ws by (simp add: instant_window_at_fst)
    moreover have "instant (snd (ws ! i)) = min (instant s + (int i + 1) * d) (instant e)"
      using i ws by (simp add: instant_window_at_snd)
    ultimately show "instant (fst (ws ! i)) < instant (snd (ws ! i))"
      using below [OF i] d by (simp add: algebra_simps)
  qed
  show "\<forall>t. instant s \<le> t \<and> t < instant e \<longrightarrow>
           (\<exists>!i. i < length ws \<and> instant (fst (ws ! i)) \<le> t \<and> t < instant (snd (ws ! i)))"
  proof (intro allI impI)
    fix t assume t: "instant s \<le> t \<and> t < instant e"
    have inside: "(instant (fst (ws ! i)) \<le> t \<and> t < instant (snd (ws ! i))) \<longleftrightarrow>
        (int i * d \<le> t - instant s \<and> t - instant s < (int i + 1) * d)" if "i < n" for i
      using that ws t by (auto simp: instant_window_at_fst instant_window_at_snd)
    let ?q = "(t - instant s) div d"
    have q0: "0 \<le> ?q" using t d by (simp add: pos_imp_zdiv_nonneg_iff)
    have qb: "?q * d \<le> t - instant s" "t - instant s < (?q + 1) * d"
      using div_bounds_int [OF d, of "t - instant s"] by simp_all
    have qn: "nat ?q < n"
    proof (rule ccontr)
      assume "\<not> nat ?q < n"
      then have "int n \<le> ?q" using q0 by linarith
      then have "int n * d \<le> ?q * d" using d by (simp add: mult_right_mono)
      with qb(1) above t show False by linarith
    qed
    show "\<exists>!i. i < length ws \<and> instant (fst (ws ! i)) \<le> t \<and> t < instant (snd (ws ! i))"
    proof (rule ex1I [of _ "nat ?q"])
      show "nat ?q < length ws \<and> instant (fst (ws ! nat ?q)) \<le> t \<and> t < instant (snd (ws ! nat ?q))"
        using qn len inside [OF qn] qb q0 by simp
    next
      fix i assume a: "i < length ws \<and> instant (fst (ws ! i)) \<le> t \<and> t < instant (snd (ws ! i))"
      then have "i < n" using len by simp
      with a inside have "int i * d \<le> t - instant s \<and> t - instant s < (int i + 1) * d" by blast
      then have "?q = int i" using div_unique_int [OF d] by blast
      then show "i = nat ?q" by simp
    qed
  qed
qed


lemma windows_loop_negative:
  assumes "m < 0" and "dt_less cur e = Inr True"
  shows "windows_loop m e acc cur = Some (Inl OverflowError)"
  using assms(2)
proof (induction "nat (naive_us cur)" arbitrary: cur acc rule: less_induct)
  case less
  have sa: "same_awareness cur e" using less.prems by (rule dt_less_Inr_same)
  then have sa': "same_awareness e cur" by (auto simp: same_awareness_def)
  have lt: "instant cur < instant e" using less.prems sa by (simp add: dt_less_instant)
  show ?case
  proof (cases "timedelta_minutes m")
    case (Inl err)
    then have "err = OverflowError" by (auto simp: timedelta_minutes_def split: if_splits)
    with Inl less.prems show ?thesis by (subst windows_loop.simps) simp
  next
    case (Inr d)
    then have d: "d = m * 60000000" by (auto simp: timedelta_minutes_def split: if_splits)
    then have dneg: "d < 0" using assms(1) by simp
    show ?thesis
    proof (cases "dt_add cur d")
      case (Inl err)
      then have "err = OverflowError" by (auto simp: dt_add_def split: if_splits)
      with Inl Inr less.prems show ?thesis by (subst windows_loop.simps) simp
    next
      case (Inr raw)
      then have raw: "raw = cur\<lparr>naive_us := naive_us cur + d\<rparr>" and nn: "0 \<le> naive_us cur + d"
        by (auto simp: dt_add_def split: if_splits)
      have mn: "dt_min raw e = Inr raw"
        using sa' lt dneg by (simp add: dt_min_def dt_less_instant raw)
      have nxt: "dt_less raw e = Inr True"
        using sa lt dneg by (simp add: dt_less_instant raw)
      have "nat (naive_us raw) < nat (naive_us cur)" using nn dneg by (simp add: raw)
      then have "windows_loop m e (acc @ [(cur, raw)]) raw = Some (Inl OverflowError)"
        using nxt by (rule less.hyps)
      then show ?thesis
        using less.prems \<open>timedelta_minutes m = Inr d\<close> Inr mn
        by (subst windows_loop.simps) simp
    qed
  qed
qed


text \<open>
  C2, as the code has it: for a range whose two ends can be compared, with start not after
  end, and a positive interval, \<open>generate_time_windows\<close> returns a list of
  \<open>ceil((end - start) / interval)\<close> windows, provided the end of the last window before its
  truncation, \<open>start + ceil((end - start) / interval) * interval\<close>, is still a datetime. The
  first window starts at start, the last one ends at the instant of end (at end itself when
  both carry the same offset), each window starts where the one before it ends, no window is
  empty, and every instant of the range lies in exactly one window.
\<close>

theorem generate_time_windows_partition:
  assumes "parse_time ev start_time = Inr s" and "parse_time ev end_time = Inr e"
    and "same_awareness s e" and "valid_datetime s"
    and "instant s \<le> instant e" and "0 < time_interval_minutes f"
    and "naive_us s
           + \<lceil>real_of_int (instant e - instant s) / real_of_int (interval_us f)\<rceil> * interval_us f
         \<le> datetime_max_us"
  shows "\<exists>ws. generate_time_windows f ev start_time end_time = Some (Inr ws)
     \<and> int (length ws) = \<lceil>real_of_int (instant e - instant s) / real_of_int (interval_us f)\<rceil>
     \<and> (ws \<noteq> [] \<longrightarrow> fst (hd ws) = s \<and> instant (snd (last ws)) = instant e
            \<and> (tzinfo s = tzinfo e \<longrightarrow> snd (last ws) = e))
     \<and> (\<forall>i. Suc i < length ws \<longrightarrow> fst (ws ! Suc i) = snd (ws ! i))
     \<and> (\<forall>i<length ws. instant (fst (ws ! i)) < instant (snd (ws ! i)))
     \<and> (\<forall>t. instant s \<le> t \<and> t < instant e \<longrightarrow>
           (\<exists>!i. i < length ws \<and> instant (fst (ws ! i)) \<le> t \<and> t < instant (snd (ws ! i))))"
proof -
  let ?d = "interval_us f"
  have d: "0 < ?d" using assms(6) by (simp add: interval_us_def)
  have c0: "0 \<le> ceil_div (instant e - instant s) ?d"
  proof (rule ccontr)
    assume "\<not> 0 \<le> ceil_div (instant e - instant s) ?d"
    then have "ceil_div (instant e - instant s) ?d \<le> - 1" by simp
    then have "instant e - instant s \<le> - 1 * ?d"
      using ceil_div_le_iff [OF d] by blast
    with d assms(5) show False by simp
  qed
  define n where "n = nat (ceil_div (instant e - instant s) ?d)"
  have n: "int n = ceil_div (instant e - instant s) ?d" using c0 by (simp add: n_def)
  define ws where "ws = map (window_at s e ?d) [0..<n]"
  have "windows_loop (time_interval_minutes f) e [] s
          = Some (Inr ([] @ map (window_at s e (time_interval_minutes f * 60000000)) [0..<n]))"
  proof (rule windows_loop_closed_form)
    show "0 < time_interval_minutes f" by (rule assms(6))
    show "same_awareness s e" by (rule assms(3))
    show "0 \<le> naive_us s" using assms(4) by (simp add: valid_datetime_def)
    show "int n = max 0 (ceil_div (instant e - instant s) (time_interval_minutes f * 60000000))"
      using n c0 by (simp add: interval_us_def)
    show "naive_us s + int n * (time_interval_minutes f * 60000000) \<le> datetime_max_us"
      using assms(7) n by (simp add: ceil_div_ceiling interval_us_def)
  qed
  then have gen: "generate_time_windows f ev start_time end_time = Some (Inr ws)"
    using assms(1,2) by (simp add: generate_time_windows_def ws_def interval_us_def)
  have len: "int (length ws) = \<lceil>real_of_int (instant e - instant s) / real_of_int ?d\<rceil>"
    using n by (simp add: ws_def ceil_div_ceiling)
  from gen len windows_closed_form_props [OF d assms(5) n ws_def]
  show ?thesis by blast
qed

text \<open>The theorem at the two hours from 2024-01-01T00:00 with the default interval of 60.\<close>

theorem generate_time_windows_partition_witness:
  "\<exists>ws. generate_time_windows (init None None None) (example_env [])
           (TStr ''2024-01-01'') (TDatetime (example_time 120)) = Some (Inr ws)
        \<and> int (length ws) = 2 \<and> fst (hd ws) = example_time 0 \<and> snd (last ws) = example_time 120"
proof -
  have p1: "parse_time (example_env []) (TStr ''2024-01-01'') = Inr (example_time 0)"
    by (simp add: parse_time_def TIME_FORMATS_def example_env_def example_time_def)
  have p2: "parse_time (example_env []) (TDatetime (example_time 120)) = Inr (example_time 120)"
    by (simp add: parse_time_def)
  have c: "\<lceil>real_of_int (instant (example_time 120) - instant (example_time 0))
             / real_of_int (interval_us (init None None None))\<rceil> = 2"
    by (simp add: instant_def example_time_def utc_def interval_us_def init_def or_default_def
        DEFAULT_CONFIG_def)
  have "\<exists>ws. generate_time_windows (init None None None) (example_env [])
           (TStr ''2024-01-01'') (TDatetime (example_time 120)) = Some (Inr ws)
     \<and> int (length ws) = \<lceil>real_of_int (instant (example_time 120) - instant (example_time 0))
             / real_of_int (interval_us (init None None None))\<rceil>
     \<and> (ws \<noteq> [] \<longrightarrow> fst (hd ws) = example_time 0
            \<and> instant (snd (last ws)) = instant (example_time 120)
            \<and> (tzinfo (example_time 0) = tzinfo (example_time 120) \<longrightarrow> snd (last ws) = example_time 120))
     \<and> (\<forall>i. Suc i < length ws \<longrightarrow> fst (ws ! Suc i) = snd (ws ! i))
     \<and> (\<forall>i<length ws. instant (fst (ws ! i)) < instant (snd (ws ! i)))
     \<and> (\<forall>t. instant (example_time 0) \<le> t \<and> t < instant (example_time 120) \<longrightarrow>
           (\<exists>!i. i < length ws \<and> instant (fst (ws ! i)) \<le> t \<and> t < instant (snd (ws ! i))))"
  proof (rule generate_time_windows_partition [OF p1 p2])
    show "same_awareness (example_time 0) (example_time 120)"
      by (simp add: same_awareness_def example_time_def utc_def)
    show "valid_datetime (example_time 0)"
      by (simp add: valid_datetime_def example_time_def datetime_max_us_def)
    show "instant (example_time 0) \<le> instant (example_time 120)"
      by (simp add: instant_def example_time_def)
    show "0 < time_interval_minutes (init None None None)"
      by (simp add: init_def or_default_def DEFAULT_CONFIG_def)
    show "naive_us (example_time 0)
           + \<lceil>real_of_int (instant (example_time 120) - instant (example_time 0))
               / real_of_int (interval_us (init None None None))\<rceil>
             * interval_us (init None None None) \<le> datetime_max_us"
      unfolding c
      by (simp add: example_time_def interval_us_def init_def or_default_def
          DEFAULT_CONFIG_def datetime_max_us_def)
  qed
  then obtain ws where ws: "generate_time_windows (init None None None) (example_env [])
           (TStr ''2024-01-01'') (TDatetime (example_time 120)) = Some (Inr ws)"
     "int (length ws) = 2"
     "ws \<noteq> [] \<longrightarrow> fst (hd ws) = example_time 0
            \<and> instant (snd (last ws)) = instant (example_time 120)
            \<and> (tzinfo (example_time 0) = tzinfo (example_time 120) \<longrightarrow> snd (last ws) = example_time 120)"
    unfolding c by blast
  from ws(2) have "ws \<noteq> []" by auto
  with ws(3) have "fst (hd ws) = example_time 0 \<and> snd (last ws) = example_time 120"
    by (simp add: example_time_def)
  with ws(1,2) show ?thesis by blast
qed


text \<open>
  C2 as stated fails at the upper edge of the datetime type: from 23:30:00 to 23:59:59 on
  9999-12-31 with the default interval, \<open>current_time + timedelta(minutes=60)\<close> leaves the
  type before \<open>min\<close> can truncate it, and the call raises \<open>OverflowError\<close>.
\<close>

theorem generate_time_windows_overflow_counterexample:
  "generate_time_windows (init None None None) (example_env [])
     (TDatetime (last_day_time 84600)) (TDatetime (last_day_time 86399)) = Some (Inl OverflowError)"
  by (simp add: generate_time_windows_def parse_time_def windows_loop.simps dt_less_def
      last_day_time_def utc_def init_def or_default_def DEFAULT_CONFIG_def timedelta_minutes_def
      dt_add_def datetime_max_us_def)


text \<open>
  C4, as the code has it: window generation has no check of the interval. For an interval
  that is zero or negative it returns the empty list when start is not before end and raises
  \<open>TypeError\<close> when the two ends cannot be compared; when start is before end it produces no
  window list at all: with interval zero the loop never ends, and with a negative interval
  the cursor walks back until the datetime arithmetic raises \<open>OverflowError\<close>.
\<close>

theorem windows_nonpositive_interval:
  assumes "time_interval_minutes f \<le> 0"
    and "parse_time ev start_time = Inr s" and "parse_time ev end_time = Inr e"
    and "valid_datetime s"
  shows "generate_time_windows f ev start_time end_time =
     (case dt_less s e of
        Inl err \<Rightarrow> Some (Inl err)
      | Inr before \<Rightarrow>
          if \<not> before then Some (Inr [])
          else if time_interval_minutes f = 0 then None
          else Some (Inl OverflowError))"
proof (cases "dt_less s e")
  case (Inl err)
  then show ?thesis using assms(2,3)
    by (simp add: generate_time_windows_def) (subst windows_loop.simps, simp)
next
  case (Inr before)
  show ?thesis
  proof (cases before)
    case False
    with Inr show ?thesis using assms(2,3)
      by (simp add: generate_time_windows_def) (subst windows_loop.simps, simp)
  next
    case True
    show ?thesis
    proof (cases "time_interval_minutes f = 0")
      case z: True
      have "windows_loop 0 e [] s = None"
        using assms(4) Inr True by (intro windows_loop_zero_diverges) simp_all
      with z Inr True show ?thesis using assms(2,3)
        by (simp add: generate_time_windows_def)
    next
      case nz: False
      then have "time_interval_minutes f < 0" using assms(1) by simp
      then have "windows_loop (time_interval_minutes f) e [] s = Some (Inl OverflowError)"
        using Inr True by (intro windows_loop_negative) simp_all
      with nz Inr True show ?thesis using assms(2,3)
        by (simp add: generate_time_windows_def)
    qed
  qed
qed

text \<open>The theorem at the two hours from 2024-01-01T00:00, with interval -5 and with 0.\<close>

theorem windows_nonpositive_interval_witness:
  "time_interval_minutes (init None (Some (- 5)) None) \<le> 0
   \<and> valid_datetime (example_time 0)
   \<and> generate_time_windows (init None (Some (- 5)) None) (example_env [])
        (TDatetime (example_time 0)) (TDatetime (example_time 120)) = Some (Inl OverflowError)
   \<and> generate_time_windows ((init None None None)\<lparr>time_interval_minutes := 0\<rparr>) (example_env [])
        (TDatetime (example_time 0)) (TDatetime (example_time 120)) = None"
proof -
  have v: "valid_datetime (example_time 0)"
    by (simp add: valid_datetime_def example_time_def datetime_max_us_def)
  have p: "parse_time (example_env []) (TDatetime (example_time k)) = Inr (example_time k)" for k
    by (simp add: parse_time_def)
  have l: "dt_less (example_time 0) (example_time 120) = Inr True"
    by (simp add: dt_less_def example_time_def utc_def)
  have n: "time_interval_minutes (init None (Some (- 5)) None) \<le> 0"
    by (simp add: init_def or_default_def)
  have z: "time_interval_minutes ((init None None None)\<lparr>time_interval_minutes := 0\<rparr>) \<le> 0"
    by simp
  show ?thesis
    using windows_nonpositive_interval [OF n p [of 0] p [of 120] v]
      windows_nonpositive_interval [OF z p [of 0] p [of 120] v] l n v
    by (simp add: init_def or_default_def)
qed


text \<open>
  C4 as stated fails: with interval -5 (the constructor keeps it) and an empty range the
  call returns the empty list; no error is raised.
\<close>

theorem windows_no_configuration_check_counterexample:
  "generate_time_windows (init None (Some (- 5)) None) (example_env [])
     (TDatetime (example_time 0)) (TDatetime (example_time 0)) = Some (Inr [])"
  by (simp add: generate_time_windows_def parse_time_def windows_loop.simps dt_less_def
      example_time_def utc_def)


section \<open>Time parsing\<close>

text \<open>
  C3: \<open>parse_time\<close> hands a datetime object back as it is, so an offset-naive one stays
  offset-naive: here the naive 2024-01-01T00:00:00.
\<close>

theorem parse_time_naive_datetime_unchanged:
  "parse_time ev (TDatetime \<lparr>naive_us = 63839664000000000, tzinfo = None\<rparr>)
     = Inr \<lparr>naive_us = 63839664000000000, tzinfo = None\<rparr>"
  by (simp add: parse_time_def)


text \<open>Whatever a string parses to is aware: the string branch sets UTC on a naive result.\<close>

lemma try_formats_aware: "try_formats ev s fmts = Inr d \<Longrightarrow> tzinfo d \<noteq> None"
  by (induction fmts) (auto simp: utc_def split: option.splits if_splits)

lemma parse_time_string_aware: "parse_time ev (TStr s) = Inr d \<Longrightarrow> tzinfo d \<noteq> None"
  by (simp add: parse_time_def try_formats_aware)


section \<open>Counting and fetching: basic facts\<close>

lemma yields_append [simp]: "yields (a @ b) = yields a @ yields b"
  by (induction a rule: yields.induct) simp_all

lemma queries_append [simp]: "queries (a @ b) = queries a @ queries b"
  by (induction a rule: queries.induct) simp_all

lemma length_selection:
  "length (selection ev config t s e w sf)
     = length (matching ev t (time_field config) s e (truthy_str w))"
  by (simp add: selection_def)

lemma get_table_count_InrD:
  assumes "get_table_count f ev t st en w = (lg, Inr n)"
  obtains config s e conn where "table_config_of t = Some config"
    and "parse_time ev st = Inr s" and "parse_time ev en = Inr e" and "pool f = Some conn"
    and "n = int (length (matching ev t (time_field config) s e (truthy_str w)))"
  using assms
  by (auto simp: get_table_count_def Let_def run_count_def split: option.splits sum.splits)

lemma get_table_count_ok:
  assumes "table_config_of t = Some config"
    and "parse_time ev st = Inr s" and "parse_time ev en = Inr e" and "pool f = Some conn"
  shows "get_table_count f ev t st en w =
     ([Query (Count_Query \<lparr>cq_table = t, cq_time_field = time_field config, cq_start = s,
         cq_end = e, cq_where = truthy_str w\<rparr>)],
      Inr (int (length (matching ev t (time_field config) s e (truthy_str w)))))"
  using assms by (simp add: get_table_count_def Let_def run_count_def)

lemma fetch_data_chunk_ok:
  assumes "table_config_of t = Some config"
    and "parse_time ev st = Inr s" and "parse_time ev en = Inr e" and "pool f = Some conn"
    and "0 < chunk_size f" and "0 \<le> offset"
    and "fetchable f ev t sf" and "offset \<le> bigint_max"
  shows "fetch_data_chunk f ev t st en offset (Some (chunk_size f)) w sf =
     ([Query (Fetch_Query \<lparr>fq_fields = truthy_list sf, fq_table = t,
         fq_time_field = time_field config, fq_start = s, fq_end = e,
         fq_where = truthy_str w, fq_order = order_fields config,
         fq_limit = chunk_size f, fq_offset = offset\<rparr>)],
      Inr (take (nat (chunk_size f)) (drop (nat offset) (selection ev config t s e w sf))))"
  using assms
  by (simp add: fetch_data_chunk_def Let_def run_fetch_def or_default_def selection_def
      accepted_def fetchable_def take_map drop_map)

section \<open>Pacing\<close>

lemma paced_not_Sleep: "paced full (Sleep # es) = False"
  by simp

lemma paced_after_short: "paced full b \<Longrightarrow> \<not> full c \<Longrightarrow> paced full (Yield c # b)"
proof (cases b)
  case Nil
  assume "\<not> full c"
  with Nil show ?thesis by simp
next
  case (Cons x xs)
  assume "paced full b" "\<not> full c"
  with Cons show ?thesis by (cases x) simp_all
qed

lemma paced_append: "paced full a \<Longrightarrow> paced full b \<Longrightarrow> paced full (a @ b)"
  by (induction full a rule: paced.induct) (simp_all add: paced_after_short)

lemma paced_index:
  "paced full evs \<Longrightarrow> i < length evs \<Longrightarrow> evs ! i = Yield c \<Longrightarrow> pause_after evs i = full c"
  by (induction full evs arbitrary: i rule: paced.induct)
     (auto simp: pause_after_def nth_Cons split: nat.splits)

section \<open>Flat mode\<close>

lemma chunks_loop_done:
  "\<not> offset < total_count \<Longrightarrow> chunks_loop f ev t st en w sf total_count offset idx = ([], None)"
  by (simp add: chunks_loop.simps)

lemma chunks_loop_step:
  assumes "table_config_of t = Some config"
    and "parse_time ev st = Inr s" and "parse_time ev en = Inr e" and "pool f = Some conn"
    and "0 < chunk_size f" and "0 \<le> offset"
    and "total_count = int (length (selection ev config t s e w sf))" and "offset < total_count"
    and "fetchable f ev t sf" and "total_count \<le> bigint_max"
  shows "chunks_loop f ev t st en w sf total_count offset idx =
     (Query (fetch_query_of f config t s e w sf offset)
        # Yield (flat_chunk_of config t total_count (idx + 1) offset
             (take (nat (chunk_size f)) (drop (nat offset) (selection ev config t s e w sf))))
        # Sleep
        # fst (chunks_loop f ev t st en w sf total_count (offset + chunk_size f) (idx + 1)),
      snd (chunks_loop f ev t st en w sf total_count (offset + chunk_size f) (idx + 1)))"
proof -
  let ?rows = "take (nat (chunk_size f)) (drop (nat offset) (selection ev config t s e w sf))"
  have ne: "?rows \<noteq> []" using assms(5,6,7,8) by auto
  have ob: "offset \<le> bigint_max" using assms(8,10) by simp
  show ?thesis
    apply (subst chunks_loop.simps)
    apply (simp only: assms(8) if_True fetch_data_chunk_ok [OF assms(1-6) assms(9) ob] prod.case
        sum.case ne if_False assms(1) option.case Let_def)
    apply (simp add: flat_chunk_of_def fetch_query_of_def split: prod.splits)
    done
qed


lemma table_config_of_tweets:
  "table_config_of ''tweets'' = Some \<lparr>time_field = ''created_at_ts'', primary_key = ''tweet_id'',
        order_fields = [''created_at_ts'', ''tweet_id'']\<rparr>"
  by (simp add: table_config_of_def TABLE_CONFIGS_def)

lemma matching_example_rows:
  assumes "int n \<le> 60 * k" and "instant s = 63839664000000000"
    and "instant e = 63839664000000000 + k * 60000000"
  shows "matching (example_env (example_rows n)) ''tweets'' ''created_at_ts'' s e None
           = example_rows n"
proof -
  have "\<forall>r \<in> set (example_rows n). in_range ''created_at_ts'' s e r"
    using assms by (auto simp: example_rows_def in_range_def)
  then show ?thesis
    by (simp add: matching_def example_env_def satisfies_def)
qed

lemma example_count:
  assumes "int n \<le> 60 * k"
  shows "get_table_count (init_connection (init cs ti mc)) (example_env (example_rows n)) ''tweets''
           (TDatetime (example_time 0)) (TDatetime (example_time k)) None
         = ([Query (Count_Query \<lparr>cq_table = ''tweets'', cq_time_field = ''created_at_ts'',
                cq_start = example_time 0, cq_end = example_time k, cq_where = None\<rparr>)],
            Inr (int n))"
proof -
  have "matching (example_env (example_rows n)) ''tweets'' ''created_at_ts''
          (example_time 0) (example_time k) None = example_rows n"
    using assms by (intro matching_example_rows [of n k])
      (simp_all add: instant_def example_time_def utc_def)
  then show ?thesis
    by (simp add: get_table_count_def table_config_of_tweets parse_time_def Let_def
        init_connection_def run_count_def truthy_str_def example_rows_def)
qed


text \<open>
  C5: in flat mode with a chunk size of 1000, when the count for the range is 2500 and the
  field list, if one is given, names columns of the table, the stream ends normally after
  exactly three envelopes of sizes 1000, 1000 and 500, at offsets 0, 1000 and 2000 and with
  chunk indices 1, 2 and 3; each envelope carries the total count 2500; the progress values
  are 1000/2500, 2000/2500 and 1, that is \<open>(chunk_offset + chunk_size) / total_count\<close> for
  each envelope.
\<close>

theorem flat_mode_2500_rows:
  assumes "chunk_size f = 1000"
    and "get_table_count f ev t st en w = (lg :: flat_chunk event list, Inr 2500)"
    and "fetchable f ev t sf"
  shows "\<exists>evs c1 c2 c3. stream_data_by_chunks f ev t st en w sf = (evs, None)
     \<and> yields evs = [c1, c2, c3]
     \<and> map fc_chunk_size [c1, c2, c3] = [1000, 1000, 500]
     \<and> map fc_chunk_offset [c1, c2, c3] = [0, 1000, 2000]
     \<and> map fc_chunk_index [c1, c2, c3] = [1, 2, 3]
     \<and> map fc_total_count [c1, c2, c3] = [2500, 2500, 2500]
     \<and> map fc_progress [c1, c2, c3] = [1000 / 2500, 2000 / 2500, 1]
     \<and> (\<forall>c \<in> set (yields evs).
           fc_progress c = of_int (fc_chunk_offset c + fc_chunk_size c) / of_int (fc_total_count c))
     \<and> fc_progress c3 = 1"
proof -
  from assms(2) obtain config s e conn where H: "table_config_of t = Some config"
    "parse_time ev st = Inr s" "parse_time ev en = Inr e" "pool f = Some conn"
    and n: "(2500::int) = int (length (matching ev t (time_field config) s e (truthy_str w)))"
    by (rule get_table_count_InrD)
  let ?sel = "selection ev config t s e w sf"
  have len: "length ?sel = 2500" using n by (simp add: length_selection)
  have n': "(2500::int) = int (length ?sel)" using len by simp
  have cs: "0 < chunk_size f" using assms(1) by simp
  have big: "(2500::int) \<le> bigint_max" by (simp add: bigint_max_def)
  note step = chunks_loop_step [OF H cs _ n' _ assms(3) big]
  let ?c1 = "flat_chunk_of config t 2500 1 0 (take 1000 ?sel)"
  let ?c2 = "flat_chunk_of config t 2500 2 1000 (take 1000 (drop 1000 ?sel))"
  let ?c3 = "flat_chunk_of config t 2500 3 2000 (take 1000 (drop 2000 ?sel))"
  have l3: "chunks_loop f ev t st en w sf 2500 3000 3 = ([], None)"
    by (rule chunks_loop_done) simp
  have l2: "chunks_loop f ev t st en w sf 2500 2000 2 =
      ([Query (fetch_query_of f config t s e w sf 2000), Yield ?c3, Sleep], None)"
    using step [of 2000 2] l3 assms(1) by simp
  have l1: "chunks_loop f ev t st en w sf 2500 1000 1 =
      ([Query (fetch_query_of f config t s e w sf 1000), Yield ?c2, Sleep,
        Query (fetch_query_of f config t s e w sf 2000), Yield ?c3, Sleep], None)"
    using step [of 1000 1] l2 assms(1) by simp
  have l0: "chunks_loop f ev t st en w sf 2500 0 0 =
      ([Query (fetch_query_of f config t s e w sf 0), Yield ?c1, Sleep,
        Query (fetch_query_of f config t s e w sf 1000), Yield ?c2, Sleep,
        Query (fetch_query_of f config t s e w sf 2000), Yield ?c3, Sleep], None)"
    using step [of 0 0] l1 assms(1) by simp
  have "stream_data_by_chunks f ev t st en w sf =
      (lg @ [Query (fetch_query_of f config t s e w sf 0), Yield ?c1, Sleep,
        Query (fetch_query_of f config t s e w sf 1000), Yield ?c2, Sleep,
        Query (fetch_query_of f config t s e w sf 2000), Yield ?c3, Sleep], None)"
    using assms(2) l0 by (simp add: stream_data_by_chunks_def)
  moreover have "yields lg = []"
    using assms(2) H by (auto simp: get_table_count_ok)
  ultimately show ?thesis
    using len by (simp add: flat_chunk_of_def)
qed

text \<open>The theorem on a store of 2500 rows, all inside the queried hour.\<close>

theorem flat_mode_2500_rows_witness:
  "chunk_size (init_connection (init None None None)) = 1000
   \<and> fetchable (init_connection (init None None None))
        (example_env (example_rows 2500)) ''tweets'' None
   \<and> (\<exists>evs c1 c2 c3.
        stream_data_by_chunks (init_connection (init None None None))
          (example_env (example_rows 2500)) ''tweets''
          (TDatetime (example_time 0)) (TDatetime (example_time 60)) None None = (evs, None)
        \<and> yields evs = [c1, c2, c3]
        \<and> map fc_chunk_size [c1, c2, c3] = [1000, 1000, 500]
        \<and> map fc_total_count [c1, c2, c3] = [2500, 2500, 2500]
        \<and> map fc_progress [c1, c2, c3] = [1000 / 2500, 2000 / 2500, 1])"
proof -
  have cs: "chunk_size (init_connection (init None None None)) = 1000"
    by (simp add: init_connection_def init_def or_default_def DEFAULT_CONFIG_def)
  have ok: "fetchable (init_connection (init None None None))
              (example_env (example_rows 2500)) ''tweets'' None"
    by (simp add: fetchable_def cs bigint_max_def selected_columns_def truthy_list_def
        example_env_def)
  have cnt: "get_table_count (init_connection (init None None None))
           (example_env (example_rows 2500)) ''tweets''
           (TDatetime (example_time 0)) (TDatetime (example_time 60)) None
         = ([Query (Count_Query \<lparr>cq_table = ''tweets'', cq_time_field = ''created_at_ts'',
                cq_start = example_time 0, cq_end = example_time 60, cq_where = None\<rparr>)],
            Inr 2500)"
    using example_count [of 2500 60 None None None] by simp
  from flat_mode_2500_rows [OF cs cnt ok]
  obtain evs c1 c2 c3 where
    "stream_data_by_chunks (init_connection (init None None None))
       (example_env (example_rows 2500)) ''tweets''
       (TDatetime (example_time 0)) (TDatetime (example_time 60)) None None = (evs, None)"
    "yields evs = [c1, c2, c3]" "map fc_chunk_size [c1, c2, c3] = [1000, 1000, 500]"
    "map fc_total_count [c1, c2, c3] = [2500, 2500, 2500]"
    "map fc_progress [c1, c2, c3] = [1000 / 2500, 2000 / 2500, 1]"
    by (elim exE conjE)
  with cs ok show ?thesis by (intro conjI exI)
qed


section \<open>Windowed mode\<close>

lemma running_append:
  "running tot (a @ b) = (running tot a \<and> running (tot + sum_list (map wc_chunk_size a)) b)"
proof (induction a arbitrary: tot)
  case Nil
  show ?case by simp
next
  case (Cons c a)
  show ?case
  proof (cases "wc_total_records_so_far c = tot + wc_chunk_size c")
    case True
    then show ?thesis using Cons [of "tot + wc_chunk_size c"] by (simp add: add.assoc)
  next
    case False
    then show ?thesis by simp
  qed
qed

lemma fetch_data_chunk_InrD:
  assumes "fetch_data_chunk f ev t st en offset (Some (chunk_size f)) w sf = (lg, Inr rows)"
  obtains config s e conn where "table_config_of t = Some config"
    and "parse_time ev st = Inr s" and "parse_time ev en = Inr e" and "pool f = Some conn"
    and "0 \<le> chunk_size f" and "0 \<le> offset"
    and "lg = [Query (fetch_query_of f config t s e w sf offset)]"
    and "rows = take (nat (chunk_size f)) (drop (nat offset) (selection ev config t s e w sf))"
    and "fetchable f ev t sf" and "offset \<le> bigint_max"
proof (cases "table_config_of t")
  case None
  with assms show ?thesis by (simp add: fetch_data_chunk_def)
next
  case (Some config)
  note c = this
  show ?thesis
  proof (cases "parse_time ev st")
    case (Inl err)
    with assms c show ?thesis by (simp add: fetch_data_chunk_def)
  next
    case (Inr s)
    note s = this
    show ?thesis
    proof (cases "parse_time ev en")
      case (Inl err)
      with assms c s show ?thesis by (simp add: fetch_data_chunk_def)
    next
      case (Inr e)
      note e = this
      show ?thesis
      proof (cases "pool f")
        case None
        with assms c s e show ?thesis by (simp add: fetch_data_chunk_def Let_def)
      next
        case (Some conn)
        let ?q = "\<lparr>fq_fields = truthy_list sf, fq_table = t,
                    fq_time_field = time_field config, fq_start = s, fq_end = e,
                    fq_where = truthy_str w, fq_order = order_fields config,
                    fq_limit = or_default (Some (chunk_size f)) (chunk_size f),
                    fq_offset = offset\<rparr>"
        have lim: "or_default (Some (chunk_size f)) (chunk_size f) = chunk_size f"
          by (simp add: or_default_def)
        have acc: "accepted ev ?q"
          using assms c s e Some
          by (cases "accepted ev ?q") (simp_all add: fetch_data_chunk_def Let_def run_fetch_def)
        then have nn: "0 \<le> chunk_size f" "0 \<le> offset" "fetchable f ev t sf"
          "offset \<le> bigint_max"
          by (simp_all add: accepted_def fetchable_def lim)
        have "lg = [Query (fetch_query_of f config t s e w sf offset)]
          \<and> rows = take (nat (chunk_size f)) (drop (nat offset) (selection ev config t s e w sf))"
          using assms c s e Some acc
          by (auto simp: fetch_data_chunk_def Let_def run_fetch_def lim
              fetch_query_of_def selection_def take_map drop_map)
        with that c s e Some nn show ?thesis by blast
      qed
    qed
  qed
qed


lemma fetch_data_chunk_log_shape:
  "fst (fetch_data_chunk f ev t st en offset limit w sf) = []
   \<or> (\<exists>q. fst (fetch_data_chunk f ev t st en offset limit w sf) = [Query q])"
  by (simp add: fetch_data_chunk_def Let_def split: option.split sum.split)

lemma get_table_count_log_shape:
  "fst (get_table_count f ev t st en w) = []
   \<or> (\<exists>q. fst (get_table_count f ev t st en w) = [Query q])"
  by (simp add: get_table_count_def Let_def split: option.split sum.split)

lemma window_pages_done:
  "\<not> offset < n \<Longrightarrow> window_pages f ev t w sf i ws we n offset tot = ([], Inr tot)"
  by (simp add: window_pages.simps)

lemma window_pages_error:
  assumes "offset < n"
    and "fetch_data_chunk f ev t (TDatetime ws) (TDatetime we) offset (Some (chunk_size f)) w sf
           = (lg, Inl err)"
  shows "window_pages f ev t w sf i ws we n offset tot = (lg, Inl err)"
  using assms by (subst window_pages.simps) simp

lemma window_pages_empty:
  assumes "offset < n"
    and "fetch_data_chunk f ev t (TDatetime ws) (TDatetime we) offset (Some (chunk_size f)) w sf
           = (lg, Inr [])"
  shows "window_pages f ev t w sf i ws we n offset tot = (lg, Inr tot)"
  using assms by (subst window_pages.simps) simp

lemma window_pages_step:
  assumes "offset < n"
    and "fetch_data_chunk f ev t (TDatetime ws) (TDatetime we) offset (Some (chunk_size f)) w sf
           = (lg, Inr rows)"
    and "rows \<noteq> []" and "table_config_of t = Some config"
  shows "window_pages f ev t w sf i ws we n offset tot =
     (lg @ Yield (window_chunk_of ev config t i ws we offset tot rows)
         # (if chunk_size f \<le> int (length rows) then [Sleep] else [])
         @ fst (window_pages f ev t w sf i ws we n (offset + chunk_size f)
                  (tot + int (length rows))),
      snd (window_pages f ev t w sf i ws we n (offset + chunk_size f)
             (tot + int (length rows))))"
  apply (subst window_pages.simps)
  apply (simp only: assms if_True if_False prod.case sum.case option.case Let_def)
  apply (simp add: window_chunk_of_def split: prod.splits)
  done

lemma paced_short_log: "evs = [] \<or> (\<exists>q. evs = [Query q]) \<Longrightarrow> paced full evs"
  by auto

lemma yields_short_log: "evs = [] \<or> (\<exists>q. evs = [Query q]) \<Longrightarrow> yields evs = []"
  by auto

lemma try_formats_error: "try_formats ev s fmts = Inl err \<Longrightarrow> err = UnparsableTime s"
  by (induction fmts) (auto split: option.splits)

lemma parse_time_error: "parse_time ev x = Inl err \<Longrightarrow> \<exists>s. err = UnparsableTime s"
  by (cases x) (auto simp: parse_time_def dest: try_formats_error)

lemma fetch_data_chunk_known:
  assumes "table_config_of t \<noteq> None"
  shows "snd (fetch_data_chunk f ev t st en offset limit w sf) \<noteq> Inl (UnsupportedTable x)"
proof -
  from assms obtain config where c: "table_config_of t = Some config" by auto
  show ?thesis
  proof (cases "parse_time ev st")
    case (Inl err)
    with c parse_time_error [OF Inl] show ?thesis by (auto simp: fetch_data_chunk_def)
  next
    case s: (Inr s)
    show ?thesis
    proof (cases "parse_time ev en")
      case (Inl err)
      with c s parse_time_error [OF Inl] show ?thesis by (auto simp: fetch_data_chunk_def)
    next
      case (Inr e)
      with c s show ?thesis
        by (simp add: fetch_data_chunk_def Let_def run_fetch_def split: option.splits)
    qed
  qed
qed

lemma get_table_count_known:
  assumes "table_config_of t \<noteq> None"
  shows "snd (get_table_count f ev t st en w) \<noteq> Inl (UnsupportedTable x)"
proof -
  from assms obtain config where c: "table_config_of t = Some config" by auto
  show ?thesis
  proof (cases "parse_time ev st")
    case (Inl err)
    with c parse_time_error [OF Inl] show ?thesis by (auto simp: get_table_count_def)
  next
    case s: (Inr s)
    show ?thesis
    proof (cases "parse_time ev en")
      case (Inl err)
      with c s parse_time_error [OF Inl] show ?thesis by (auto simp: get_table_count_def)
    next
      case (Inr e)
      with c s show ?thesis
        by (simp add: get_table_count_def Let_def split: option.splits)
    qed
  qed
qed

lemma window_pages_inv:
  "paced (window_full f) (fst (window_pages f ev t w sf i ws we n offset tot))
   \<and> running tot (yields (fst (window_pages f ev t w sf i ws we n offset tot)))
   \<and> (\<forall>tot'. snd (window_pages f ev t w sf i ws we n offset tot) = Inr tot' \<longrightarrow>
         tot' = tot + sum_list (map wc_chunk_size
                  (yields (fst (window_pages f ev t w sf i ws we n offset tot)))))
   \<and> (\<forall>c \<in> set (yields (fst (window_pages f ev t w sf i ws we n offset tot))).
         wc_window_index c = i)
   \<and> (yields (fst (window_pages f ev t w sf i ws we n offset tot)) \<noteq> [] \<longrightarrow>
         wc_chunk_offset (hd (yields (fst (window_pages f ev t w sf i ws we n offset tot))))
           = offset)
   \<and> (table_config_of t \<noteq> None \<longrightarrow>
         (\<forall>x. snd (window_pages f ev t w sf i ws we n offset tot) \<noteq> Inl (UnsupportedTable x)))"
proof (induction "nat (n - offset)" arbitrary: offset tot rule: less_induct)
  case less
  obtain lg :: "window_chunk event list" and r where
    fr: "fetch_data_chunk f ev t (TDatetime ws) (TDatetime we) offset
           (Some (chunk_size f)) w sf = (lg, r)"
    by (cases "fetch_data_chunk f ev t (TDatetime ws) (TDatetime we) offset
           (Some (chunk_size f)) w sf :: window_chunk event list \<times> (error + row list)")
  have shape: "lg = [] \<or> (\<exists>q. lg = [Query q])"
    using fetch_data_chunk_log_shape fr by (metis fst_conv)
  show ?case
  proof (cases "offset < n")
    case False
    then show ?thesis by (simp add: window_pages_done)
  next
    case True
    show ?thesis
    proof (cases r)
      case (Inl err)
      with fr True have "window_pages f ev t w sf i ws we n offset tot = (lg, Inl err)"
        by (intro window_pages_error) simp_all
      moreover have "table_config_of t \<noteq> None \<longrightarrow> (\<forall>x. err \<noteq> UnsupportedTable x)"
        using fetch_data_chunk_known [of t] fr Inl
        by (metis snd_conv)
      ultimately show ?thesis using shape by (auto simp: paced_short_log yields_short_log)
    next
      case (Inr rows)
      show ?thesis
      proof (cases "rows = []")
        case e: True
        with fr True Inr have "window_pages f ev t w sf i ws we n offset tot = (lg, Inr tot)"
          by (intro window_pages_empty) simp_all
        then show ?thesis using shape by (auto simp: paced_short_log yields_short_log)
      next
        case ne: False
        from fr Inr obtain config s e conn where H: "table_config_of t = Some config"
          "0 \<le> chunk_size f"
          "rows = take (nat (chunk_size f)) (drop (nat offset) (selection ev config t s e w sf))"
          by (auto elim: fetch_data_chunk_InrD)
        have cs: "0 < chunk_size f" using H(2,3) ne by (cases "chunk_size f = 0") auto
        have le: "int (length rows) \<le> chunk_size f" using H(3) cs by simp
        let ?c = "window_chunk_of ev config t i ws we offset tot rows"
        let ?pause = "if chunk_size f \<le> int (length rows) then [Sleep] else []"
        let ?rest = "window_pages f ev t w sf i ws we n (offset + chunk_size f)
                       (tot + int (length rows))"
        have step: "window_pages f ev t w sf i ws we n offset tot =
                      (lg @ Yield ?c # ?pause @ fst ?rest, snd ?rest)"
          using True fr Inr ne H(1) by (intro window_pages_step) simp_all
        have "nat (n - (offset + chunk_size f)) < nat (n - offset)" using True cs by simp
        then have IH: "paced (window_full f) (fst ?rest)"
          "running (tot + int (length rows)) (yields (fst ?rest))"
          "\<forall>tot'. snd ?rest = Inr tot' \<longrightarrow>
             tot' = tot + int (length rows) + sum_list (map wc_chunk_size (yields (fst ?rest)))"
          "\<forall>c \<in> set (yields (fst ?rest)). wc_window_index c = i"
          "table_config_of t \<noteq> None \<longrightarrow> (\<forall>x. snd ?rest \<noteq> Inl (UnsupportedTable x))"
          using less.hyps [of "offset + chunk_size f" "tot + int (length rows)"] by simp_all
        have len: "0 < int (length rows)" using ne by simp
        have c_facts: "wc_chunk_size ?c = int (length rows)" "wc_window_index ?c = i"
          "wc_chunk_offset ?c = offset" "wc_total_records_so_far ?c = tot + int (length rows)"
          by (simp_all add: window_chunk_of_def)
        have y: "yields (fst (window_pages f ev t w sf i ws we n offset tot))
                   = ?c # yields (fst ?rest)"
          unfolding step using shape by auto
        have p1: "paced (window_full f) (Yield ?c # ?pause @ fst ?rest)"
        proof (cases "chunk_size f \<le> int (length rows)")
          case full: True
          then have "window_full f ?c" using le by (simp add: window_full_def c_facts)
          with full IH(1) show ?thesis by simp
        next
          case short: False
          then have nf: "\<not> window_full f ?c" by (simp add: window_full_def c_facts)
          show ?thesis
          proof (cases "fst ?rest")
            case Nil
            with short nf show ?thesis by simp
          next
            case (Cons x xs)
            with short nf IH(1) show ?thesis by (cases x) simp_all
          qed
        qed
        have "paced (window_full f) lg" using shape by (rule paced_short_log)
        then have P: "paced (window_full f) (fst (window_pages f ev t w sf i ws we n offset tot))"
          unfolding step using p1 by (simp add: paced_append)
        have R: "running tot (yields (fst (window_pages f ev t w sf i ws we n offset tot)))"
          unfolding y using IH(2) len by (simp add: c_facts)
        have T: "\<forall>tot'. snd (window_pages f ev t w sf i ws we n offset tot) = Inr tot' \<longrightarrow>
           tot' = tot + sum_list (map wc_chunk_size
                  (yields (fst (window_pages f ev t w sf i ws we n offset tot))))"
          unfolding y using IH(3) by (simp add: step c_facts add.assoc)
        have I: "\<forall>c \<in> set (yields (fst (window_pages f ev t w sf i ws we n offset tot))).
                   wc_window_index c = i"
          unfolding y using IH(4) by (simp add: c_facts)
        have O: "yields (fst (window_pages f ev t w sf i ws we n offset tot)) \<noteq> [] \<longrightarrow>
           wc_chunk_offset (hd (yields (fst (window_pages f ev t w sf i ws we n offset tot))))
             = offset"
          unfolding y by (simp add: c_facts)
        have U: "table_config_of t \<noteq> None \<longrightarrow>
           (\<forall>x. snd (window_pages f ev t w sf i ws we n offset tot) \<noteq> Inl (UnsupportedTable x))"
          using IH(5) by (simp add: step)
        from P R T I O U show ?thesis by blast
      qed
    qed
  qed
qed

lemma index_ok_const: "\<forall>c \<in> set ys. wc_window_index c = i \<Longrightarrow> index_ok i ys"
  by (induction ys) simp_all

lemma index_ok_window:
  assumes "\<forall>c \<in> set ys. wc_window_index c = i"
    and "ys \<noteq> [] \<longrightarrow> wc_chunk_offset (hd ys) = 0" and "p \<le> i"
  shows "index_ok p ys"
proof (cases ys)
  case Nil
  then show ?thesis by simp
next
  case (Cons c cs)
  with assms have "index_ok i cs" by (intro index_ok_const) simp
  with Cons assms show ?thesis by simp
qed

lemma index_ok_append:
  "index_ok p (a @ b) \<longleftrightarrow>
     index_ok p a \<and> index_ok (if a = [] then p else wc_window_index (last a)) b"
  by (induction a arbitrary: p) simp_all

lemma windows_iter_inv:
  "paced (window_full f) (fst (windows_iter f ev t w sf i wins tot))
   \<and> running tot (yields (fst (windows_iter f ev t w sf i wins tot)))
   \<and> (\<forall>c \<in> set (yields (fst (windows_iter f ev t w sf i wins tot))). i \<le> wc_window_index c)
   \<and> (\<forall>p<i. index_ok p (yields (fst (windows_iter f ev t w sf i wins tot))))
   \<and> (table_config_of t \<noteq> None \<longrightarrow>
         (\<forall>x. snd (windows_iter f ev t w sf i wins tot) \<noteq> Some (UnsupportedTable x)))"
proof (induction wins arbitrary: i tot)
  case Nil
  show ?case by simp
next
  case (Cons win rest)
  obtain ws we where win: "win = (ws, we)" by (cases win)
  obtain lg :: "window_chunk event list" and r where
    cnt: "get_table_count f ev t (TDatetime ws) (TDatetime we) w = (lg, r)"
    by (cases "get_table_count f ev t (TDatetime ws) (TDatetime we) w
                 :: window_chunk event list \<times> (error + int)")
  have shape: "lg = [] \<or> (\<exists>q. lg = [Query q])"
    using get_table_count_log_shape cnt by (metis fst_conv)
  have plg: "paced (window_full f) lg" using shape by (rule paced_short_log)
  have ylg: "yields lg = []" using shape by (rule yields_short_log)
  show ?case
  proof (cases r)
    case (Inl err)
    then have "windows_iter f ev t w sf i (win # rest) tot = (lg, Some err)"
      using cnt win by simp
    moreover have "table_config_of t \<noteq> None \<longrightarrow> (\<forall>x. err \<noteq> UnsupportedTable x)"
      using get_table_count_known [of t] cnt Inl
      by (metis snd_conv)
    ultimately show ?thesis using plg ylg by simp
  next
    case (Inr n)
    let ?rest = "\<lambda>tot'. windows_iter f ev t w sf (i + 1) rest tot'"
    have IH: "paced (window_full f) (fst (?rest tot'))"
      "running tot' (yields (fst (?rest tot')))"
      "\<forall>c \<in> set (yields (fst (?rest tot'))). i + 1 \<le> wc_window_index c"
      "\<forall>p<i + 1. index_ok p (yields (fst (?rest tot')))"
      "table_config_of t \<noteq> None \<longrightarrow> (\<forall>x. snd (?rest tot') \<noteq> Some (UnsupportedTable x))"
      for tot'
      using Cons [of "i + 1" tot'] by simp_all
    show ?thesis
    proof (cases "n = 0")
      case True
      then have eq: "windows_iter f ev t w sf i (win # rest) tot
                       = (lg @ fst (?rest tot), snd (?rest tot))"
        using cnt win Inr by (simp split: prod.splits)
      have "\<forall>c \<in> set (yields (fst (?rest tot))). i \<le> wc_window_index c"
        using IH(3) [of tot] by auto
      moreover have "\<forall>p<i. index_ok p (yields (fst (?rest tot)))"
        using IH(4) [of tot] by auto
      ultimately show ?thesis
        unfolding eq using plg IH(1,2,5) [of tot] ylg by (simp add: paced_append)
    next
      case False
      obtain pg r2 where pages: "window_pages f ev t w sf i ws we n 0 tot = (pg, r2)"
        by (cases "window_pages f ev t w sf i ws we n 0 tot")
      have inv: "paced (window_full f) pg" "running tot (yields pg)"
        "\<forall>tot'. r2 = Inr tot' \<longrightarrow> tot' = tot + sum_list (map wc_chunk_size (yields pg))"
        "\<forall>c \<in> set (yields pg). wc_window_index c = i"
        "yields pg \<noteq> [] \<longrightarrow> wc_chunk_offset (hd (yields pg)) = 0"
        "table_config_of t \<noteq> None \<longrightarrow> (\<forall>x. r2 \<noteq> Inl (UnsupportedTable x))"
        using window_pages_inv [of f ev t w sf i ws we n 0 tot] pages by simp_all
      have wi: "\<forall>p<i. index_ok p (yields pg)"
        using inv(4,5) by (auto intro!: index_ok_window)
      have ge: "\<forall>c \<in> set (yields pg). i \<le> wc_window_index c"
        using inv(4) by auto
      show ?thesis
      proof (cases r2)
        case (Inl err)
        then have eq: "windows_iter f ev t w sf i (win # rest) tot = (lg @ pg, Some err)"
          using cnt win Inr False pages by simp
        show ?thesis
          unfolding eq using plg inv(1,2,6) ylg wi ge Inl by (simp add: paced_append)
      next
        case (Inr tot')
        then have eq: "windows_iter f ev t w sf i (win # rest) tot
                         = (lg @ pg @ fst (?rest tot'), snd (?rest tot'))"
          using cnt win \<open>r = Inr n\<close> False pages by (simp split: prod.splits)
        have tot': "tot' = tot + sum_list (map wc_chunk_size (yields pg))"
          using inv(3) Inr by blast
        have run: "running tot (yields pg @ yields (fst (?rest tot')))"
          using inv(2) IH(2) [of tot'] tot' by (simp add: running_append)
        have idx: "\<forall>p<i. index_ok p (yields pg @ yields (fst (?rest tot')))"
        proof (intro allI impI)
          fix p assume p: "p < i"
          have "index_ok (if yields pg = [] then p else wc_window_index (last (yields pg)))
                  (yields (fst (?rest tot')))"
          proof (cases "yields pg = []")
            case True
            then show ?thesis using IH(4) [of tot'] p by simp
          next
            case ne: False
            then have "wc_window_index (last (yields pg)) = i"
              using inv(4) last_in_set by blast
            with ne show ?thesis using IH(4) [of tot'] by simp
          qed
          with wi p show "index_ok p (yields pg @ yields (fst (?rest tot')))"
            by (simp add: index_ok_append)
        qed
        have ge': "\<forall>c \<in> set (yields (fst (?rest tot'))). i \<le> wc_window_index c"
          using IH(3) [of tot'] by auto
        have "paced (window_full f) (lg @ pg @ fst (?rest tot'))"
          using plg inv(1) IH(1) [of tot'] by (simp add: paced_append)
        then show ?thesis
          unfolding eq using run idx ge ge' ylg IH(5) [of tot'] by (simp add: ball_Un)
      qed
    qed
  qed
qed

lemma running_nth:
  "running tot cs \<Longrightarrow> k < length cs \<Longrightarrow>
     wc_total_records_so_far (cs ! k) = tot + sum_list (map wc_chunk_size (take (Suc k) cs))
     \<and> 0 < wc_chunk_size (cs ! k)"
proof (induction cs arbitrary: tot k)
  case Nil
  then show ?case by simp
next
  case (Cons c cs)
  show ?case
  proof (cases k)
    case 0
    with Cons.prems show ?thesis by simp
  next
    case (Suc j)
    have u: "0 < wc_chunk_size c
        \<and> wc_total_records_so_far c = tot + wc_chunk_size c
        \<and> running (wc_total_records_so_far c) cs"
      using Cons.prems(1) unfolding running.simps .
    then have r: "running (wc_total_records_so_far c) cs"
      and e: "wc_total_records_so_far c = tot + wc_chunk_size c" by blast+
    have j: "j < length cs" using Cons.prems(2) Suc by simp
    from r have "running (tot + wc_chunk_size c) cs" unfolding e .
    from Cons.IH [OF this j] Suc show ?thesis by (simp add: add.assoc)
  qed
qed

lemma index_ok_nth:
  "index_ok p cs \<Longrightarrow> Suc k < length cs \<Longrightarrow>
     wc_window_index (cs ! k) \<le> wc_window_index (cs ! Suc k)
     \<and> (wc_window_index (cs ! k) < wc_window_index (cs ! Suc k)
          \<longrightarrow> wc_chunk_offset (cs ! Suc k) = 0)"
proof (induction cs arbitrary: p k)
  case Nil
  then show ?case by simp
next
  case (Cons c cs)
  show ?case
  proof (cases k)
    case 0
    with Cons.prems show ?thesis by (cases cs) simp_all
  next
    case (Suc j)
    with Cons.prems have "index_ok (wc_window_index c) cs" "Suc j < length cs" by simp_all
    from Cons.IH [OF this] Suc show ?thesis by simp
  qed
qed

lemma index_ok_hd:
  "index_ok p cs \<Longrightarrow> cs \<noteq> [] \<Longrightarrow>
     p \<le> wc_window_index (cs ! 0) \<and> (p < wc_window_index (cs ! 0) \<longrightarrow> wc_chunk_offset (cs ! 0) = 0)"
  by (cases cs) simp_all


lemma window_pages_from:
  assumes "0 \<le> offset"
  shows "\<forall>c \<in> set (yields (fst (window_pages f ev t w sf i ws we n offset tot))).
           wc_window_index c = i
           \<and> (\<exists>config. table_config_of t = Some config
                 \<and> window_page f ev config t w sf (ws, we) c)"
  using assms
proof (induction "nat (n - offset)" arbitrary: offset tot rule: less_induct)
  case less
  obtain lg :: "window_chunk event list" and r where
    fr: "fetch_data_chunk f ev t (TDatetime ws) (TDatetime we) offset
           (Some (chunk_size f)) w sf = (lg, r)"
    by (cases "fetch_data_chunk f ev t (TDatetime ws) (TDatetime we) offset
           (Some (chunk_size f)) w sf :: window_chunk event list \<times> (error + row list)")
  have shape: "lg = [] \<or> (\<exists>q. lg = [Query q])"
    using fetch_data_chunk_log_shape fr by (metis fst_conv)
  have ylg: "yields lg = []" using shape by (rule yields_short_log)
  show ?case
  proof (cases "offset < n")
    case False
    then show ?thesis by (simp add: window_pages_done)
  next
    case True
    show ?thesis
    proof (cases r)
      case (Inl err)
      with fr True have "window_pages f ev t w sf i ws we n offset tot = (lg, Inl err)"
        by (intro window_pages_error) simp_all
      then show ?thesis using ylg by simp
    next
      case (Inr rows)
      show ?thesis
      proof (cases "rows = []")
        case e: True
        with fr True Inr have "window_pages f ev t w sf i ws we n offset tot = (lg, Inr tot)"
          by (intro window_pages_empty) simp_all
        then show ?thesis using ylg by simp
      next
        case ne: False
        from fr Inr obtain config s e where H: "table_config_of t = Some config"
          "parse_time ev (TDatetime ws) = Inr s" "parse_time ev (TDatetime we) = Inr e"
          "0 \<le> chunk_size f"
          "rows = take (nat (chunk_size f)) (drop (nat offset) (selection ev config t s e w sf))"
          by (auto elim: fetch_data_chunk_InrD)
        have se: "s = ws" "e = we" using H(2,3) by (simp_all add: parse_time_def)
        have cs: "0 < chunk_size f" using H(4,5) ne by (cases "chunk_size f = 0") auto
        let ?c = "window_chunk_of ev config t i ws we offset tot rows"
        let ?pause = "if chunk_size f \<le> int (length rows) then [Sleep] else []"
        let ?rest = "window_pages f ev t w sf i ws we n (offset + chunk_size f)
                       (tot + int (length rows))"
        have step: "window_pages f ev t w sf i ws we n offset tot =
                      (lg @ Yield ?c # ?pause @ fst ?rest, snd ?rest)"
          using True fr Inr ne H(1) by (intro window_pages_step) simp_all
        have y: "yields (fst (window_pages f ev t w sf i ws we n offset tot))
                   = ?c # yields (fst ?rest)"
          unfolding step using ylg by simp
        have lt: "nat (n - (offset + chunk_size f)) < nat (n - offset)" using True cs by simp
        have nn: "0 \<le> offset + chunk_size f" using less.prems cs by simp
        have IH: "\<forall>c \<in> set (yields (fst ?rest)).
           wc_window_index c = i
           \<and> (\<exists>config. table_config_of t = Some config
                 \<and> window_page f ev config t w sf (ws, we) c)"
          by (rule less.hyps [OF lt nn])
        have c1: "wc_window_index ?c = i" by (simp add: window_chunk_of_def)
        have c2: "window_page f ev config t w sf (ws, we) ?c"
          using less.prems H(5) se by (simp add: window_page_def window_chunk_of_def)
        show ?thesis
          unfolding y using IH c1 c2 H(1) by (simp only: set_simps ball_simps) blast
      qed
    qed
  qed
qed

lemma windows_iter_from:
  "\<forall>c \<in> set (yields (fst (windows_iter f ev t w sf i wins tot))).
     \<exists>config k. table_config_of t = Some config \<and> k < length wins
        \<and> wc_window_index c = i + int k
        \<and> window_page f ev config t w sf (wins ! k) c"
proof (induction wins arbitrary: i tot)
  case Nil
  show ?case by simp
next
  case (Cons win rest)
  obtain ws we where win: "win = (ws, we)" by (cases win)
  obtain lg :: "window_chunk event list" and r where
    cnt: "get_table_count f ev t (TDatetime ws) (TDatetime we) w = (lg, r)"
    by (cases "get_table_count f ev t (TDatetime ws) (TDatetime we) w
                 :: window_chunk event list \<times> (error + int)")
  have shape: "lg = [] \<or> (\<exists>q. lg = [Query q])"
    using get_table_count_log_shape cnt by (metis fst_conv)
  have ylg: "yields lg = []" using shape by (rule yields_short_log)
  let ?Q = "\<lambda>i wins c. \<exists>config k. table_config_of t = Some config \<and> k < length wins
        \<and> wc_window_index c = i + int k
        \<and> window_page f ev config t w sf (wins ! k) c"
  have shift: "?Q (i + 1) rest c \<Longrightarrow> ?Q i (win # rest) c" for c
  proof -
    assume "?Q (i + 1) rest c"
    then obtain config k where k: "table_config_of t = Some config" "k < length rest"
      "wc_window_index c = i + 1 + int k" "window_page f ev config t w sf (rest ! k) c"
      by blast
    have "Suc k < length (win # rest)" using k(2) by simp
    moreover have "wc_window_index c = i + int (Suc k)" using k(3) by simp
    moreover have "window_page f ev config t w sf ((win # rest) ! Suc k) c" using k(4) by simp
    ultimately show ?thesis using k(1) by blast
  qed
  have first: "wc_window_index c = i \<Longrightarrow> table_config_of t = Some config
                 \<Longrightarrow> window_page f ev config t w sf (ws, we) c \<Longrightarrow> ?Q i (win # rest) c"
    for c config
  proof -
    assume a: "wc_window_index c = i" "table_config_of t = Some config"
      "window_page f ev config t w sf (ws, we) c"
    have "0 < length (win # rest)" by simp
    moreover have "wc_window_index c = i + int 0" using a(1) by simp
    moreover have "window_page f ev config t w sf ((win # rest) ! 0) c" using a(3) win by simp
    ultimately show ?thesis using a(2) by blast
  qed
  have IH: "\<forall>c \<in> set (yields (fst (windows_iter f ev t w sf (i + 1) rest tot'))).
              ?Q i (win # rest) c" for tot'
    using Cons [of "i + 1" tot'] shift by blast
  show ?case
  proof (cases r)
    case (Inl err)
    then have "windows_iter f ev t w sf i (win # rest) tot = (lg, Some err)"
      using cnt win by simp
    then show ?thesis using ylg by simp
  next
    case (Inr n)
    show ?thesis
    proof (cases "n = 0")
      case True
      then have eq: "windows_iter f ev t w sf i (win # rest) tot
                       = (lg @ fst (windows_iter f ev t w sf (i + 1) rest tot),
                          snd (windows_iter f ev t w sf (i + 1) rest tot))"
        using cnt win Inr by (simp split: prod.splits)
      have "yields (fst (windows_iter f ev t w sf i (win # rest) tot))
              = yields (fst (windows_iter f ev t w sf (i + 1) rest tot))"
        unfolding eq using ylg by simp
      then show ?thesis using IH [of tot] by simp
    next
      case False
      obtain pg r2 where pages: "window_pages f ev t w sf i ws we n 0 tot = (pg, r2)"
        by (cases "window_pages f ev t w sf i ws we n 0 tot")
      have "\<forall>c \<in> set (yields pg). wc_window_index c = i
           \<and> (\<exists>config. table_config_of t = Some config
                 \<and> window_page f ev config t w sf (ws, we) c)"
        using window_pages_from [of 0 f ev t w sf i ws we n tot] pages by simp
      then have P: "\<forall>c \<in> set (yields pg). ?Q i (win # rest) c"
        using first by blast
      show ?thesis
      proof (cases r2)
        case (Inl err)
        then have eq: "windows_iter f ev t w sf i (win # rest) tot = (lg @ pg, Some err)"
          using cnt win \<open>r = Inr n\<close> False pages by simp
        have "yields (fst (windows_iter f ev t w sf i (win # rest) tot)) = yields pg"
          unfolding eq using ylg by simp
        then show ?thesis using P by simp
      next
        case (Inr tot')
        then have eq: "windows_iter f ev t w sf i (win # rest) tot
                         = (lg @ pg @ fst (windows_iter f ev t w sf (i + 1) rest tot'),
                            snd (windows_iter f ev t w sf (i + 1) rest tot'))"
          using cnt win \<open>r = Inr n\<close> False pages by (simp split: prod.splits)
        have "yields (fst (windows_iter f ev t w sf i (win # rest) tot))
                = yields pg @ yields (fst (windows_iter f ev t w sf (i + 1) rest tot'))"
          unfolding eq using ylg by simp
        then show ?thesis using P IH [of tot'] by (simp add: ball_Un)
      qed
    qed
  qed
qed

lemma stream_from_window:
  assumes "stream_data_by_time_windows f ev t st en w sf = Some (evs, outcome)"
    and "generate_time_windows f ev st en = Some (Inr windows)"
  shows "\<forall>c \<in> set (yields evs). from_window f ev t w sf windows c"
proof
  fix c assume c: "c \<in> set (yields evs)"
  from assms have "windows_iter f ev t w sf 1 windows 0 = (evs, outcome)"
    by (simp add: stream_data_by_time_windows_def)
  then have "evs = fst (windows_iter f ev t w sf 1 windows 0)" by simp
  with windows_iter_from [of f ev t w sf 1 windows 0] c
  obtain config k where k: "table_config_of t = Some config" "k < length windows"
    "wc_window_index c = 1 + int k" "window_page f ev config t w sf (windows ! k) c"
    by blast
  have "nat (wc_window_index c - 1) = k" using k(3) by simp
  then show "from_window f ev t w sf windows c"
    using k by (simp add: from_window_def)
qed


text \<open>
  C10: whatever a windowed stream yields, the \<open>total_records_so_far\<close> of each envelope is
  the sum of the \<open>chunk_size\<close> fields of all envelopes up to and including it, so it grows
  strictly along the stream; the \<open>window_index\<close> is at least 1 and never falls; the first
  envelope of the stream and every envelope whose window index is larger than that of the
  envelope before it has \<open>chunk_offset\<close> 0; and the \<open>window_index\<close> of each envelope is the
  position, counted from 1, of a window in the list that \<open>generate_time_windows\<close> returns
  for the range, the envelope carrying the ends of that window and a page of its rows.
\<close>

theorem windowed_running_totals:
  assumes "stream_data_by_time_windows f ev t st en w sf = Some (evs, outcome)"
  shows "(\<forall>k<length (yields evs).
            wc_total_records_so_far (yields evs ! k)
              = sum_list (map wc_chunk_size (take (Suc k) (yields evs))))
    \<and> (\<forall>k. Suc k < length (yields evs) \<longrightarrow>
            wc_total_records_so_far (yields evs ! k)
              < wc_total_records_so_far (yields evs ! Suc k))
    \<and> (\<forall>k<length (yields evs). 1 \<le> wc_window_index (yields evs ! k))
    \<and> (\<forall>k. Suc k < length (yields evs) \<longrightarrow>
            wc_window_index (yields evs ! k) \<le> wc_window_index (yields evs ! Suc k))
    \<and> (\<forall>k<length (yields evs).
            (k = 0 \<or> wc_window_index (yields evs ! (k - 1)) < wc_window_index (yields evs ! k))
            \<longrightarrow> wc_chunk_offset (yields evs ! k) = 0)
    \<and> (\<forall>windows. generate_time_windows f ev st en = Some (Inr windows) \<longrightarrow>
          (\<forall>c \<in> set (yields evs). from_window f ev t w sf windows c))"
proof -
  have "running 0 (yields evs) \<and> (\<forall>c \<in> set (yields evs). 1 \<le> wc_window_index c)
          \<and> index_ok 0 (yields evs)"
  proof (cases "generate_time_windows f ev st en")
    case None
    with assms show ?thesis by (simp add: stream_data_by_time_windows_def)
  next
    case (Some r)
    show ?thesis
    proof (cases r)
      case (Inl err)
      with Some assms have "evs = []" by (simp add: stream_data_by_time_windows_def)
      then show ?thesis by simp
    next
      case (Inr wins)
      with Some assms have "windows_iter f ev t w sf 1 wins 0 = (evs, outcome)"
        by (simp add: stream_data_by_time_windows_def)
      then have "evs = fst (windows_iter f ev t w sf 1 wins 0)" by simp
      then show ?thesis
        using windows_iter_inv [of f ev t w sf 1 wins 0] by simp
    qed
  qed
  then have inv: "running 0 (yields evs)" "\<forall>c \<in> set (yields evs). 1 \<le> wc_window_index c"
    "index_ok 0 (yields evs)" by blast+
  have a: "\<forall>k<length (yields evs). wc_total_records_so_far (yields evs ! k)
              = sum_list (map wc_chunk_size (take (Suc k) (yields evs)))"
    using running_nth [OF inv(1)] by simp
  have b: "\<forall>k. Suc k < length (yields evs) \<longrightarrow>
            wc_total_records_so_far (yields evs ! k)
              < wc_total_records_so_far (yields evs ! Suc k)"
  proof (intro allI impI)
    fix k assume k: "Suc k < length (yields evs)"
    then have "k < length (yields evs)" by simp
    from running_nth [OF inv(1) this] running_nth [OF inv(1) k]
    show "wc_total_records_so_far (yields evs ! k) < wc_total_records_so_far (yields evs ! Suc k)"
      by (simp add: take_Suc_conv_app_nth [OF k])
  qed
  have c: "\<forall>k<length (yields evs). 1 \<le> wc_window_index (yields evs ! k)"
    using inv(2) by simp
  have d: "\<forall>k. Suc k < length (yields evs) \<longrightarrow>
            wc_window_index (yields evs ! k) \<le> wc_window_index (yields evs ! Suc k)"
    using index_ok_nth [OF inv(3)] by blast
  have e: "\<forall>k<length (yields evs).
            (k = 0 \<or> wc_window_index (yields evs ! (k - 1)) < wc_window_index (yields evs ! k))
            \<longrightarrow> wc_chunk_offset (yields evs ! k) = 0"
  proof (intro allI impI)
    fix k assume k: "k < length (yields evs)"
      and h: "k = 0 \<or> wc_window_index (yields evs ! (k - 1)) < wc_window_index (yields evs ! k)"
    show "wc_chunk_offset (yields evs ! k) = 0"
    proof (cases k)
      case 0
      from k have ne: "yields evs \<noteq> []" by auto
      have "0 < wc_window_index (yields evs ! 0)" using c k 0 by force
      with index_ok_hd [OF inv(3) ne] 0 show ?thesis by simp
    next
      case (Suc j)
      with h have "wc_window_index (yields evs ! j) < wc_window_index (yields evs ! Suc j)" by simp
      moreover have "Suc j < length (yields evs)" using k Suc by simp
      ultimately show ?thesis using index_ok_nth [OF inv(3)] Suc by blast
    qed
  qed
  have g: "\<forall>windows. generate_time_windows f ev st en = Some (Inr windows) \<longrightarrow>
          (\<forall>c \<in> set (yields evs). from_window f ev t w sf windows c)"
    using stream_from_window [OF assms] by blast
  from a b c d e g show ?thesis by (intro conjI)
qed

text \<open>
  A windowed stream over two one-minute windows with chunk size 2: three rows in the first
  minute, two in the second.
\<close>

lemma example_windows:
  "generate_time_windows (init_connection (init (Some 2) (Some 1) None)) (example_env rows)
      (TDatetime (example_time 0)) (TDatetime (example_time 2))
   = Some (Inr [(example_time 0, example_time 1), (example_time 1, example_time 2)])"
  by (simp add: generate_time_windows_def parse_time_def windows_loop.simps dt_less_def
      example_time_def utc_def init_def init_connection_def or_default_def timedelta_minutes_def
      dt_add_def dt_min_def datetime_max_us_def)

lemma example_windowed_stream:
  "\<exists>c1 c2 c3 q1 q2 q3 q4 q5. stream_data_by_time_windows (init_connection (init (Some 2) (Some 1) None))
      (example_env (example_rows_at [0, 1, 2, 60, 61])) ''tweets''
      (TDatetime (example_time 0)) (TDatetime (example_time 2)) None None
   = Some ([Query q1, Query q2, Yield c1, Sleep, Query q3, Yield c2, Query q4, Query q5, Yield c3, Sleep], None)
   \<and> map wc_chunk_size [c1, c2, c3] = [2, 1, 2]
   \<and> map wc_total_records_so_far [c1, c2, c3] = [2, 3, 5]
   \<and> map wc_window_index [c1, c2, c3] = [1, 1, 2]
   \<and> map wc_chunk_offset [c1, c2, c3] = [0, 2, 0]"
  apply (simp add: stream_data_by_time_windows_def example_windows)
  apply (simp add: get_table_count_def table_config_of_tweets parse_time_def Let_def
      init_connection_def init_def or_default_def run_count_def truthy_str_def truthy_list_def
      matching_def in_range_def satisfies_def example_env_def example_rows_at_def
      instant_def example_time_def utc_def window_pages.simps fetch_data_chunk_def run_fetch_def
      project_def order_key_def accepted_def selected_columns_def column_value_def dict_def
      bigint_max_def)
  done

text \<open>The theorem on that stream.\<close>

theorem windowed_running_totals_witness:
  "\<exists>evs. stream_data_by_time_windows (init_connection (init (Some 2) (Some 1) None))
      (example_env (example_rows_at [0, 1, 2, 60, 61])) ''tweets''
      (TDatetime (example_time 0)) (TDatetime (example_time 2)) None None = Some (evs, None)
    \<and> map wc_chunk_size (yields evs) = [2, 1, 2]
    \<and> wc_total_records_so_far (yields evs ! 2) = sum_list (map wc_chunk_size (take 3 (yields evs)))
    \<and> wc_total_records_so_far (yields evs ! 1) < wc_total_records_so_far (yields evs ! 2)
    \<and> wc_window_index (yields evs ! 1) \<le> wc_window_index (yields evs ! 2)
    \<and> wc_chunk_offset (yields evs ! 0) = 0
    \<and> map wc_window_index (yields evs) = [1, 1, 2]
    \<and> from_window (init_connection (init (Some 2) (Some 1) None))
          (example_env (example_rows_at [0, 1, 2, 60, 61])) ''tweets'' None None
          [(example_time 0, example_time 1), (example_time 1, example_time 2)] (yields evs ! 2)"
proof -
  from example_windowed_stream obtain evs where
    s: "stream_data_by_time_windows (init_connection (init (Some 2) (Some 1) None))
      (example_env (example_rows_at [0, 1, 2, 60, 61])) ''tweets''
      (TDatetime (example_time 0)) (TDatetime (example_time 2)) None None = Some (evs, None)"
    and sz: "map wc_chunk_size (yields evs) = [2, 1, 2]"
    and ix: "map wc_window_index (yields evs) = [1, 1, 2]"
    by auto
  from sz have len: "length (yields evs) = 3" by (metis length_map length_Cons list.size(3) numeral_3_eq_3)
  note t = windowed_running_totals [OF s]
  note t1 = t [THEN conjunct1, rule_format]
    and t2 = t [THEN conjunct2, THEN conjunct1, rule_format]
    and t4 = t [THEN conjunct2, THEN conjunct2, THEN conjunct2, THEN conjunct1, rule_format]
    and t5 = t [THEN conjunct2, THEN conjunct2, THEN conjunct2, THEN conjunct2,
                THEN conjunct1, rule_format]
    and t6 = t [THEN conjunct2, THEN conjunct2, THEN conjunct2, THEN conjunct2,
                THEN conjunct2, rule_format, OF example_windows]
  have a: "wc_total_records_so_far (yields evs ! 2)
             = sum_list (map wc_chunk_size (take 3 (yields evs)))"
    using t1 [of 2] len by (simp add: numeral_3_eq_3)
  have b: "wc_total_records_so_far (yields evs ! 1) < wc_total_records_so_far (yields evs ! 2)"
    using t2 [of 1] len by (simp add: numeral_2_eq_2)
  have c: "wc_window_index (yields evs ! 1) \<le> wc_window_index (yields evs ! 2)"
    using t4 [of 1] len by (simp add: numeral_2_eq_2)
  have d: "wc_chunk_offset (yields evs ! 0) = 0"
    using t5 [of 0] len by simp
  have "yields evs ! 2 \<in> set (yields evs)" using len by simp
  then have e: "from_window (init_connection (init (Some 2) (Some 1) None))
          (example_env (example_rows_at [0, 1, 2, 60, 61])) ''tweets'' None None
          [(example_time 0, example_time 1), (example_time 1, example_time 2)] (yields evs ! 2)"
    by (rule t6)
  from s sz a b c d ix e show ?thesis by (intro exI [of _ evs] conjI)
qed

section \<open>Flat mode: every outcome\<close>

lemma chunks_loop_error:
  assumes "offset < n"
    and "fetch_data_chunk f ev t st en offset (Some (chunk_size f)) w sf = (lg, Inl err)"
  shows "chunks_loop f ev t st en w sf n offset idx = (lg, Some err)"
  using assms by (subst chunks_loop.simps) simp

lemma chunks_loop_empty:
  assumes "offset < n"
    and "fetch_data_chunk f ev t st en offset (Some (chunk_size f)) w sf = (lg, Inr [])"
  shows "chunks_loop f ev t st en w sf n offset idx = (lg, None)"
  using assms by (subst chunks_loop.simps) simp

lemma chunks_loop_page:
  assumes "offset < n"
    and "fetch_data_chunk f ev t st en offset (Some (chunk_size f)) w sf = (lg, Inr rows)"
    and "rows \<noteq> []" and "table_config_of t = Some config"
  shows "chunks_loop f ev t st en w sf n offset idx =
     (lg @ Yield (flat_chunk_of config t n (idx + 1) offset rows) # Sleep
         # fst (chunks_loop f ev t st en w sf n (offset + chunk_size f) (idx + 1)),
      snd (chunks_loop f ev t st en w sf n (offset + chunk_size f) (idx + 1)))"
  apply (subst chunks_loop.simps)
  apply (simp only: assms if_True if_False prod.case sum.case option.case Let_def)
  apply (simp add: flat_chunk_of_def split: prod.splits)
  done

lemma chunks_loop_inv:
  "paced (\<lambda>c. True) (fst (chunks_loop f ev t st en w sf n offset idx))
   \<and> (table_config_of t \<noteq> None \<longrightarrow>
         (\<forall>x. snd (chunks_loop f ev t st en w sf n offset idx) \<noteq> Some (UnsupportedTable x)))"
proof (induction "nat (n - offset)" arbitrary: offset idx rule: less_induct)
  case less
  obtain lg :: "flat_chunk event list" and r where
    fr: "fetch_data_chunk f ev t st en offset (Some (chunk_size f)) w sf = (lg, r)"
    by (cases "fetch_data_chunk f ev t st en offset (Some (chunk_size f)) w sf
           :: flat_chunk event list \<times> (error + row list)")
  have shape: "lg = [] \<or> (\<exists>q. lg = [Query q])"
    using fetch_data_chunk_log_shape fr by (metis fst_conv)
  show ?case
  proof (cases "offset < n")
    case False
    then show ?thesis by (simp add: chunks_loop_done)
  next
    case True
    show ?thesis
    proof (cases r)
      case (Inl err)
      with fr True have "chunks_loop f ev t st en w sf n offset idx = (lg, Some err)"
        by (intro chunks_loop_error) simp_all
      moreover have "table_config_of t \<noteq> None \<longrightarrow> (\<forall>x. err \<noteq> UnsupportedTable x)"
        using fetch_data_chunk_known [of t] fr Inl by (metis snd_conv)
      ultimately show ?thesis using shape by (auto simp: paced_short_log)
    next
      case (Inr rows)
      show ?thesis
      proof (cases "rows = []")
        case e: True
        with fr True Inr have "chunks_loop f ev t st en w sf n offset idx = (lg, None)"
          by (intro chunks_loop_empty) simp_all
        then show ?thesis using shape by (auto simp: paced_short_log)
      next
        case ne: False
        from fr Inr obtain config s e conn where H: "table_config_of t = Some config"
          "0 \<le> chunk_size f"
          "rows = take (nat (chunk_size f)) (drop (nat offset) (selection ev config t s e w sf))"
          by (auto elim: fetch_data_chunk_InrD)
        have cs: "0 < chunk_size f" using H(2,3) ne by (cases "chunk_size f = 0") auto
        let ?rest = "chunks_loop f ev t st en w sf n (offset + chunk_size f) (idx + 1)"
        have step: "chunks_loop f ev t st en w sf n offset idx =
                      (lg @ Yield (flat_chunk_of config t n (idx + 1) offset rows) # Sleep
                          # fst ?rest, snd ?rest)"
          using True fr Inr ne H(1) by (intro chunks_loop_page) simp_all
        have "nat (n - (offset + chunk_size f)) < nat (n - offset)" using True cs by simp
        then have IH: "paced (\<lambda>c. True) (fst ?rest)"
          "table_config_of t \<noteq> None \<longrightarrow> (\<forall>x. snd ?rest \<noteq> Some (UnsupportedTable x))"
          using less.hyps [of "offset + chunk_size f" "idx + 1"] by simp_all
        have "paced (\<lambda>c. True) lg" using shape by (rule paced_short_log)
        then have "paced (\<lambda>c. True) (fst (chunks_loop f ev t st en w sf n offset idx))"
          unfolding step using IH(1) by (simp add: paced_append)
        then show ?thesis using IH(2) by (simp add: step)
      qed
    qed
  qed
qed

section \<open>Pacing of the two modes\<close>

text \<open>
  C6, as the code has it: in windowed mode a pause follows a yielded chunk exactly when the
  chunk is a full page (its size is the configured chunk size); in flat mode a pause
  follows every yielded chunk, a short or final page included.
\<close>

theorem pause_after_yield:
  "(stream_data_by_time_windows f ev t st en w sf = Some (wevs, woutcome) \<longrightarrow>
      (\<forall>i<length wevs. \<forall>c. wevs ! i = Yield c \<longrightarrow>
          (pause_after wevs i \<longleftrightarrow> wc_chunk_size c = chunk_size f)))
   \<and> (stream_data_by_chunks f ev t st en w sf = (evs, outcome) \<longrightarrow>
      (\<forall>i<length evs. \<forall>c. evs ! i = Yield c \<longrightarrow> pause_after evs i))"
proof (intro conjI impI)
  assume a: "stream_data_by_time_windows f ev t st en w sf = Some (wevs, woutcome)"
  have "paced (window_full f) wevs"
  proof (cases "generate_time_windows f ev st en")
    case None
    with a show ?thesis by (simp add: stream_data_by_time_windows_def)
  next
    case (Some r)
    show ?thesis
    proof (cases r)
      case (Inl err)
      with Some a have "wevs = []" by (simp add: stream_data_by_time_windows_def)
      then show ?thesis by simp
    next
      case (Inr wins)
      with Some a have "windows_iter f ev t w sf 1 wins 0 = (wevs, woutcome)"
        by (simp add: stream_data_by_time_windows_def)
      then have "wevs = fst (windows_iter f ev t w sf 1 wins 0)" by simp
      then show ?thesis using windows_iter_inv [of f ev t w sf 1 wins 0] by simp
    qed
  qed
  then show "\<forall>i<length wevs. \<forall>c. wevs ! i = Yield c \<longrightarrow>
          (pause_after wevs i \<longleftrightarrow> wc_chunk_size c = chunk_size f)"
    using paced_index [of "window_full f" wevs] by (simp add: window_full_def)
next
  assume a: "stream_data_by_chunks f ev t st en w sf = (evs, outcome)"
  obtain lg :: "flat_chunk event list" and r where
    cnt: "get_table_count f ev t st en w = (lg, r)"
    by (cases "get_table_count f ev t st en w :: flat_chunk event list \<times> (error + int)")
  have shape: "lg = [] \<or> (\<exists>q. lg = [Query q])"
    using get_table_count_log_shape cnt by (metis fst_conv)
  have plg: "paced (\<lambda>c. True) lg" using shape by (rule paced_short_log)
  have "paced (\<lambda>c. True) evs"
  proof (cases r)
    case (Inl err)
    with a cnt have "evs = lg" by (simp add: stream_data_by_chunks_def)
    with plg show ?thesis by simp
  next
    case (Inr n)
    show ?thesis
    proof (cases "n = 0")
      case True
      with a cnt Inr have "evs = lg" by (simp add: stream_data_by_chunks_def)
      with plg show ?thesis by simp
    next
      case False
      with a cnt Inr have "evs = lg @ fst (chunks_loop f ev t st en w sf n 0 0)"
        by (auto simp: stream_data_by_chunks_def split: prod.splits)
      then show ?thesis
        using plg chunks_loop_inv [of f ev t st en w sf n 0 0] by (simp add: paced_append)
    qed
  qed
  then show "\<forall>i<length evs. \<forall>c. evs ! i = Yield c \<longrightarrow> pause_after evs i"
    using paced_index [of "\<lambda>c. True" evs] by simp
qed

text \<open>The flat stream over a store of one row, with the default chunk size of 1000.\<close>

lemma example_flat_stream:
  "stream_data_by_chunks (init_connection (init None None None))
      (example_env (example_rows_at [0])) ''tweets''
      (TDatetime (example_time 0)) (TDatetime (example_time 60)) None None
   = ([Query (Count_Query \<lparr>cq_table = ''tweets'', cq_time_field = ''created_at_ts'',
                cq_start = example_time 0, cq_end = example_time 60, cq_where = None\<rparr>),
       Query (fetch_query_of (init_connection (init None None None)) tweets_config ''tweets''
                (example_time 0) (example_time 60) None None 0),
       Yield (flat_chunk_of tweets_config ''tweets'' 1 1 0 (example_rows_at [0])),
       Sleep], None)"
  by (simp add: stream_data_by_chunks_def get_table_count_def table_config_of_tweets
      parse_time_def Let_def init_connection_def init_def or_default_def DEFAULT_CONFIG_def
      run_count_def truthy_str_def truthy_list_def matching_def in_range_def satisfies_def
      example_env_def example_rows_at_def instant_def example_time_def utc_def
      chunks_loop.simps fetch_data_chunk_def run_fetch_def project_def order_key_def
      fetch_query_of_def flat_chunk_of_def tweets_config_def accepted_def
      selected_columns_def column_value_def dict_def bigint_max_def)

text \<open>
  C6 as stated fails in flat mode: with the default chunk size 1000 and a single matching
  row, the only chunk has size 1 and is still followed by the pause.
\<close>

theorem flat_pause_after_short_page_counterexample:
  "stream_data_by_chunks (init_connection (init None None None))
      (example_env (example_rows_at [0])) ''tweets''
      (TDatetime (example_time 0)) (TDatetime (example_time 60)) None None
   = ([Query (Count_Query \<lparr>cq_table = ''tweets'', cq_time_field = ''created_at_ts'',
                cq_start = example_time 0, cq_end = example_time 60, cq_where = None\<rparr>),
       Query (fetch_query_of (init_connection (init None None None)) tweets_config ''tweets''
                (example_time 0) (example_time 60) None None 0),
       Yield (flat_chunk_of tweets_config ''tweets'' 1 1 0 (example_rows_at [0])),
       Sleep], None)
   \<and> fc_chunk_size (flat_chunk_of tweets_config ''tweets'' 1 1 0 (example_rows_at [0])) = 1
   \<and> chunk_size (init_connection (init None None None)) = 1000"
  using example_flat_stream
  by (simp add: flat_chunk_of_def example_rows_at_def init_connection_def init_def
      or_default_def DEFAULT_CONFIG_def)

text \<open>
  The theorem on the windowed stream above (a pause after the full first page, none after
  the short second page) and on the flat stream of one row.
\<close>

theorem pause_after_yield_witness:
  "\<exists>wevs c1 c2 evs c.
      stream_data_by_time_windows (init_connection (init (Some 2) (Some 1) None))
        (example_env (example_rows_at [0, 1, 2, 60, 61])) ''tweets''
        (TDatetime (example_time 0)) (TDatetime (example_time 2)) None None = Some (wevs, None)
    \<and> wevs ! 2 = Yield c1 \<and> wc_chunk_size c1 = 2 \<and> pause_after wevs 2
    \<and> wevs ! 5 = Yield c2 \<and> wc_chunk_size c2 = 1 \<and> \<not> pause_after wevs 5
    \<and> stream_data_by_chunks (init_connection (init None None None))
        (example_env (example_rows_at [0])) ''tweets''
        (TDatetime (example_time 0)) (TDatetime (example_time 60)) None None = (evs, None)
    \<and> evs ! 2 = Yield c \<and> fc_chunk_size c = 1 \<and> pause_after evs 2"
proof -
  let ?f = "init_connection (init (Some 2) (Some 1) None)"
  have cs: "chunk_size ?f = 2" by (simp add: init_connection_def init_def or_default_def)
  from example_windowed_stream obtain c1 c2 c3 q1 q2 q3 q4 q5 where
    s: "stream_data_by_time_windows ?f
      (example_env (example_rows_at [0, 1, 2, 60, 61])) ''tweets''
      (TDatetime (example_time 0)) (TDatetime (example_time 2)) None None
      = Some ([Query q1, Query q2, Yield c1, Sleep, Query q3, Yield c2, Query q4, Query q5,
               Yield c3, Sleep], None)"
    and sz: "map wc_chunk_size [c1, c2, c3] = [2, 1, 2]"
    by (elim exE conjE)
  let ?wevs = "[Query q1, Query q2, Yield c1, Sleep, Query q3, Yield c2, Query q4, Query q5,
               Yield c3, Sleep]"
  let ?c = "flat_chunk_of tweets_config ''tweets'' 1 1 0 (example_rows_at [0])"
  let ?evs = "[Query (Count_Query \<lparr>cq_table = ''tweets'', cq_time_field = ''created_at_ts'',
                cq_start = example_time 0, cq_end = example_time 60, cq_where = None\<rparr>),
       Query (fetch_query_of (init_connection (init None None None)) tweets_config ''tweets''
                (example_time 0) (example_time 60) None None 0),
       Yield ?c, Sleep]"
  have fl: "stream_data_by_chunks (init_connection (init None None None))
        (example_env (example_rows_at [0])) ''tweets''
        (TDatetime (example_time 0)) (TDatetime (example_time 60)) None None = (?evs, None)"
    by (rule example_flat_stream)
  have fsz: "fc_chunk_size ?c = 1"
    by (simp add: flat_chunk_of_def example_rows_at_def)
  have e2: "?evs ! 2 = Yield ?c" and len: "length ?evs = 4" by simp_all
  note t = pause_after_yield [of ?f "example_env (example_rows_at [0, 1, 2, 60, 61])" "''tweets''"
      "TDatetime (example_time 0)" "TDatetime (example_time 2)" None None ?wevs None]
  note tw = t [THEN conjunct1, rule_format, OF s]
  note tf = pause_after_yield [of "init_connection (init None None None)"
      "example_env (example_rows_at [0])" "''tweets''"
      "TDatetime (example_time 0)" "TDatetime (example_time 60)" None None _ _ ?evs None,
      THEN conjunct2, rule_format, OF fl]
  have w2: "pause_after ?wevs 2" using tw [of 2 c1] sz cs by simp
  have w5: "\<not> pause_after ?wevs 5" using tw [of 5 c2] sz cs by simp
  have f2: "pause_after ?evs 2" using tf [of 2 ?c] by simp
  from s sz w2 w5 fl e2 fsz f2 show ?thesis
    by (intro exI [of _ ?wevs] exI [of _ c1] exI [of _ c2] exI [of _ ?evs] exI [of _ ?c] conjI)
       simp_all
qed


section \<open>Unknown tables\<close>

lemma windows_loop_errors:
  assumes "windows_loop m e acc cur = Some (Inl err)"
  shows "err = TypeError \<or> err = OverflowError"
proof -
  have "windows_loop m e acc cur = Some y \<Longrightarrow>
          (\<forall>err. y = Inl err \<longrightarrow> err = TypeError \<or> err = OverflowError)" for y
  proof (rule windows_loop.raw_induct
      [where P = "\<lambda>m e acc cur y. \<forall>err. y = Inl err \<longrightarrow> err = TypeError \<or> err = OverflowError"])
    fix loop minutes end_dt windows current_time r
    assume IH: "\<And>m e acc cur y. loop m e acc cur = Some y \<Longrightarrow>
                  \<forall>err. y = Inl err \<longrightarrow> err = TypeError \<or> err = OverflowError"
      and step: "(case dt_less current_time end_dt of Inl e \<Rightarrow> Some (Inl e)
      | Inr continue \<Rightarrow>
          if continue
          then case timedelta_minutes minutes of Inl e \<Rightarrow> Some (Inl e)
               | Inr delta \<Rightarrow>
                   case dt_add current_time delta of Inl e \<Rightarrow> Some (Inl e)
                   | Inr raw_end \<Rightarrow>
                       case dt_min raw_end end_dt of Inl e \<Rightarrow> Some (Inl e)
                       | Inr window_end \<Rightarrow>
                           loop minutes end_dt
                            (windows @ [(current_time, window_end)])
                            window_end
          else Some (Inr windows)) = Some r"
    have l: "dt_less a b = Inl x \<Longrightarrow> x = TypeError" for a b x
      by (auto simp: dt_less_def split: option.splits)
    have t: "timedelta_minutes k = Inl x \<Longrightarrow> x = OverflowError" for k x
      by (auto simp: timedelta_minutes_def split: if_splits)
    have a: "dt_add c k = Inl x \<Longrightarrow> x = OverflowError" for c k x
      by (auto simp: dt_add_def split: if_splits)
    have mn: "dt_min c k = Inl x \<Longrightarrow> x = TypeError" for c k x
      by (auto simp: dt_min_def dest: l split: sum.splits)
    show "\<forall>err. r = Inl err \<longrightarrow> err = TypeError \<or> err = OverflowError"
      using step IH
      by (auto split: sum.splits if_splits dest: l t a mn)
  qed
  with assms show ?thesis by blast
qed

lemma generate_time_windows_known:
  "generate_time_windows f ev st en \<noteq> Some (Inl (UnsupportedTable x))"
proof
  assume a: "generate_time_windows f ev st en = Some (Inl (UnsupportedTable x))"
  show False
  proof (cases "parse_time ev st")
    case (Inl err)
    with a parse_time_error [OF Inl] show False by (auto simp: generate_time_windows_def)
  next
    case s: (Inr s)
    show False
    proof (cases "parse_time ev en")
      case (Inl err)
      with a s parse_time_error [OF Inl] show False by (auto simp: generate_time_windows_def)
    next
      case (Inr e)
      with a s have "windows_loop (time_interval_minutes f) e [] s = Some (Inl (UnsupportedTable x))"
        by (simp add: generate_time_windows_def)
      from windows_loop_errors [OF this] show False by simp
    qed
  qed
qed

text \<open>
  C7, as the code has it. For a table name outside the registry, \<open>get_table_count\<close>,
  \<open>fetch_data_chunk\<close> and the flat stream raise the unsupported-table error with no
  statement sent to the store. The windowed stream generates its windows first: it raises
  whatever window generation raises, raises the unsupported-table error at the first window
  when there is one, and ends normally with nothing yielded when there is none; in every case
  it sends no statement. For a table name in the registry none of the four ever raises that
  error.
\<close>

theorem unknown_table:
  "(table_config_of t = None \<longrightarrow>
      get_table_count f ev t st en w = ([] :: 'c event list, Inl (UnsupportedTable t))
    \<and> fetch_data_chunk f ev t st en offset limit w sf
          = ([] :: 'c event list, Inl (UnsupportedTable t))
    \<and> stream_data_by_chunks f ev t st en w sf = ([], Some (UnsupportedTable t))
    \<and> stream_data_by_time_windows f ev t st en w sf =
        (case generate_time_windows f ev st en of
           None \<Rightarrow> None
         | Some (Inl e) \<Rightarrow> Some ([], Some e)
         | Some (Inr windows) \<Rightarrow>
             Some ([], if windows = [] then None else Some (UnsupportedTable t))))
   \<and> (table_config_of t \<noteq> None \<longrightarrow>
      snd (get_table_count f ev t st en w :: 'c event list \<times> (error + int))
          \<noteq> Inl (UnsupportedTable x)
    \<and> snd (fetch_data_chunk f ev t st en offset limit w sf
             :: 'c event list \<times> (error + row list)) \<noteq> Inl (UnsupportedTable x)
    \<and> snd (stream_data_by_chunks f ev t st en w sf) \<noteq> Some (UnsupportedTable x)
    \<and> stream_data_by_time_windows f ev t st en w sf \<noteq> Some (evs, Some (UnsupportedTable x)))"
proof (intro conjI impI)
  assume u: "table_config_of t = None"
  show c: "get_table_count f ev t st en w = ([] :: 'c event list, Inl (UnsupportedTable t))"
    using u by (simp add: get_table_count_def)
  show "fetch_data_chunk f ev t st en offset limit w sf
          = ([] :: 'c event list, Inl (UnsupportedTable t))"
    using u by (simp add: fetch_data_chunk_def)
  have c': "get_table_count f ev t a b w = ([] :: 'd event list, Inl (UnsupportedTable t))"
    for a b
    using u by (simp add: get_table_count_def)
  show "stream_data_by_chunks f ev t st en w sf = ([], Some (UnsupportedTable t))"
    by (simp add: stream_data_by_chunks_def c')
  have "windows_iter f ev t w sf i wins tot
          = ([], if wins = [] then None else Some (UnsupportedTable t))" for i wins tot
    by (cases wins) (auto simp: c')
  then show "stream_data_by_time_windows f ev t st en w sf =
        (case generate_time_windows f ev st en of
           None \<Rightarrow> None
         | Some (Inl e) \<Rightarrow> Some ([], Some e)
         | Some (Inr windows) \<Rightarrow>
             Some ([], if windows = [] then None else Some (UnsupportedTable t)))"
    by (simp add: stream_data_by_time_windows_def split: option.splits sum.splits)
next
  assume k: "table_config_of t \<noteq> None"
  show "snd (get_table_count f ev t st en w :: 'c event list \<times> (error + int))
          \<noteq> Inl (UnsupportedTable x)"
    using k by (rule get_table_count_known)
  show "snd (fetch_data_chunk f ev t st en offset limit w sf
             :: 'c event list \<times> (error + row list)) \<noteq> Inl (UnsupportedTable x)"
    using k by (rule fetch_data_chunk_known)
  show "snd (stream_data_by_chunks f ev t st en w sf) \<noteq> Some (UnsupportedTable x)"
  proof -
    obtain lg :: "flat_chunk event list" and r where
      cnt: "get_table_count f ev t st en w = (lg, r)"
      by (cases "get_table_count f ev t st en w :: flat_chunk event list \<times> (error + int)")
    show ?thesis
    proof (cases r)
      case (Inl err)
      then have "err \<noteq> UnsupportedTable x"
        using get_table_count_known [OF k] cnt by (metis snd_conv)
      with Inl cnt show ?thesis by (simp add: stream_data_by_chunks_def)
    next
      case (Inr n)
      obtain rest outcome where
        lp: "chunks_loop f ev t st en w sf n 0 0 = (rest, outcome)"
        by (cases "chunks_loop f ev t st en w sf n 0 0")
      have "outcome \<noteq> Some (UnsupportedTable x)"
        using chunks_loop_inv [of f ev t st en w sf n 0 0] k lp by simp
      with cnt Inr lp show ?thesis by (simp add: stream_data_by_chunks_def)
    qed
  qed
  show "stream_data_by_time_windows f ev t st en w sf \<noteq> Some (evs, Some (UnsupportedTable x))"
  proof (cases "generate_time_windows f ev st en")
    case None
    then show ?thesis by (simp add: stream_data_by_time_windows_def)
  next
    case (Some r)
    show ?thesis
    proof (cases r)
      case (Inl err)
      then have "err \<noteq> UnsupportedTable x"
        using generate_time_windows_known [of f ev st en x] Some by auto
      with Inl Some show ?thesis by (simp add: stream_data_by_time_windows_def)
    next
      case (Inr wins)
      have "snd (windows_iter f ev t w sf 1 wins 0) \<noteq> Some (UnsupportedTable x)"
        using windows_iter_inv [of f ev t w sf 1 wins 0] k by blast
      with Inr Some show ?thesis
        by (auto simp: stream_data_by_time_windows_def)
    qed
  qed
qed

text \<open>
  C7 as stated fails in windowed mode: for an unknown table and an empty range no window is
  generated, \<open>get_table_count\<close> is never called and the stream ends normally.
\<close>

theorem windowed_unknown_table_empty_range_counterexample:
  "table_config_of ''no_such_table'' = None
   \<and> stream_data_by_time_windows (init_connection (init None None None)) (example_env [])
        ''no_such_table'' (TDatetime (example_time 0)) (TDatetime (example_time 0)) None None
       = Some ([], None)"
  by (simp add: stream_data_by_time_windows_def generate_time_windows_def parse_time_def
      windows_loop.simps dt_less_def example_time_def utc_def table_config_of_def
      TABLE_CONFIGS_def)


text \<open>
  The theorem for the unknown table \<open>no_such_table\<close> over two hours, and for \<open>tweets\<close>.
\<close>

theorem unknown_table_witness:
  "table_config_of ''no_such_table'' = None
   \<and> stream_data_by_chunks (init_connection (init None None None)) (example_env [])
        ''no_such_table'' (TDatetime (example_time 0)) (TDatetime (example_time 120)) None None
       = ([], Some (UnsupportedTable ''no_such_table''))
   \<and> stream_data_by_time_windows (init_connection (init None None None)) (example_env [])
        ''no_such_table'' (TDatetime (example_time 0)) (TDatetime (example_time 120)) None None
       = Some ([], Some (UnsupportedTable ''no_such_table''))
   \<and> table_config_of ''tweets'' \<noteq> None
   \<and> snd (stream_data_by_chunks (init_connection (init None None None)) (example_env [])
        ''tweets'' (TDatetime (example_time 0)) (TDatetime (example_time 120)) None None)
       \<noteq> Some (UnsupportedTable ''tweets'')"
proof -
  have u: "table_config_of ''no_such_table'' = None"
    by (simp add: table_config_of_def TABLE_CONFIGS_def)
  have k: "table_config_of ''tweets'' \<noteq> None"
    by (simp add: table_config_of_tweets)
  have g: "generate_time_windows (init_connection (init None None None)) (example_env [])
             (TDatetime (example_time 0)) (TDatetime (example_time 120))
           = Some (Inr [(example_time 0, example_time 60), (example_time 60, example_time 120)])"
    by (simp add: generate_time_windows_def parse_time_def windows_loop.simps dt_less_def
      example_time_def utc_def init_def init_connection_def or_default_def DEFAULT_CONFIG_def
      timedelta_minutes_def dt_add_def dt_min_def datetime_max_us_def)
  note a = unknown_table [of "''no_such_table''" "init_connection (init None None None)"
      "example_env []" "TDatetime (example_time 0)" "TDatetime (example_time 120)" None 0 None
      None, THEN conjunct1, rule_format, OF u]
  note b = unknown_table [of "''tweets''" "init_connection (init None None None)"
      "example_env []" "TDatetime (example_time 0)" "TDatetime (example_time 120)" None 0 None
      None "''tweets''", THEN conjunct2, rule_format, OF k]
  from a have a3: "stream_data_by_chunks (init_connection (init None None None)) (example_env [])
        ''no_such_table'' (TDatetime (example_time 0)) (TDatetime (example_time 120)) None None
       = ([], Some (UnsupportedTable ''no_such_table''))"
    by (elim conjE)
  from a have a4: "stream_data_by_time_windows (init_connection (init None None None))
        (example_env []) ''no_such_table'' (TDatetime (example_time 0))
        (TDatetime (example_time 120)) None None
       = Some ([], Some (UnsupportedTable ''no_such_table''))"
    by (elim conjE) (simp add: g)
  have b3: "snd (stream_data_by_chunks (init_connection (init None None None))
        (example_env []) ''tweets'' (TDatetime (example_time 0)) (TDatetime (example_time 120))
        None None) \<noteq> Some (UnsupportedTable ''tweets'')"
    by (rule b [THEN conjunct2, THEN conjunct2, THEN conjunct1])
  from u a3 a4 k b3 show ?thesis by (intro conjI)
qed

section \<open>Count and streamed sizes\<close>


lemma matching_empty_range:
  "instant b \<le> instant a \<Longrightarrow> matching ev t tf a b w = []"
  by (auto simp: matching_def in_range_def filter_empty_conv split: option.splits sqlval.splits)

lemma matching_same_instants:
  "instant a = instant a' \<Longrightarrow> instant b = instant b'
     \<Longrightarrow> matching ev t tf a b w = matching ev t tf a' b' w"
  by (auto simp: matching_def in_range_def intro!: filter_cong
      split: option.splits sqlval.splits)

lemma length_filter_split:
  assumes "\<And>x. P x \<longleftrightarrow> (Q x \<or> R x)" and "\<And>x. \<not> (Q x \<and> R x)"
  shows "length (filter Q xs) + length (filter R xs) = length (filter P xs)"
  using assms by (induction xs) auto

lemma matching_split:
  assumes "instant a \<le> instant b" and "instant b \<le> instant c"
  shows "length (matching ev t tf a b w) + length (matching ev t tf b c w)
           = length (matching ev t tf a c w)"
  unfolding matching_def
proof (rule length_filter_split)
  fix r
  show "(in_range tf a c r \<and> satisfies ev w r) \<longleftrightarrow>
        (in_range tf a b r \<and> satisfies ev w r \<or> in_range tf b c r \<and> satisfies ev w r)"
    using assms by (auto simp: in_range_def split: option.splits sqlval.splits)
  show "\<not> ((in_range tf a b r \<and> satisfies ev w r) \<and> in_range tf b c r \<and> satisfies ev w r)"
    by (auto simp: in_range_def split: option.splits sqlval.splits)
qed

lemma chain_counts:
  "chain (instant s) (instant e) wins \<Longrightarrow>
     (\<Sum>(x, y)\<leftarrow>wins. length (matching ev t tf x y w)) = length (matching ev t tf s e w)"
proof (induction wins arbitrary: s)
  case Nil
  then show ?case by (simp add: matching_empty_range)
next
  case (Cons win wins)
  obtain x y where win: "win = (x, y)" by (cases win)
  with Cons.prems have c: "instant x = instant s" "instant s < instant y"
    "instant y \<le> instant e" "chain (instant y) (instant e) wins" by simp_all
  have "(\<Sum>(x, y)\<leftarrow>wins. length (matching ev t tf x y w)) = length (matching ev t tf y e w)"
    using c(4) by (rule Cons.IH)
  moreover have "matching ev t tf x y w = matching ev t tf s y w"
    using c(1) by (intro matching_same_instants) simp_all
  moreover have "length (matching ev t tf s y w) + length (matching ev t tf y e w)
                   = length (matching ev t tf s e w)"
    using c(2,3) by (intro matching_split) simp_all
  ultimately show ?case using win by simp
qed











lemma yields_pause [simp]: "yields ((if b then [Sleep] else []) @ es) = yields es"
  by simp









section \<open>The line-delimited export\<close>

text \<open>Reading back what the encoder wrote.\<close>

lemma decode_encode_value:
  "decode_value (encode_value ev v) = Some (value_as_read ev v)"
  by (cases v) (simp_all add: decode_value_def encode_value_def value_as_read_def)

lemma decode_encode_row:
  "decode_row (encode_row ev r) = Some (map (\<lambda>(c, v). (c, value_as_read ev v)) r)"
proof -
  have "those (map (\<lambda>(c, v). map_option (Pair c) (decode_value v))
                 (map (\<lambda>(c, v). (c, encode_value ev v)) r))
          = Some (map (\<lambda>(c, v). (c, value_as_read ev v)) r)"
    by (induction r) (auto simp: decode_encode_value)
  then show ?thesis
    by (simp only: decode_row_def encode_row_def json.case)
qed

lemma decode_encode_rows:
  "decode_rows (JArray (map (encode_row ev) rows)) = Some (rows_as_read ev rows)"
proof -
  have "those (map decode_row (map (encode_row ev) rows)) = Some (rows_as_read ev rows)"
    by (induction rows) (simp_all add: decode_encode_row rows_as_read_def)
  then show ?thesis
    by (simp only: decode_rows_def json.case)
qed

lemma decode_encode_metadata: "decode_metadata (encode_metadata m) = Some m"
  by (simp add: decode_metadata_def encode_metadata_def)

lemma decode_encode_window_chunk:
  "decode_window_chunk (encode_window_chunk ev c) = Some (window_chunk_as_read ev c)"
  by (simp add: decode_window_chunk_def encode_window_chunk_def decode_encode_rows
      decode_encode_metadata window_chunk_as_read_def)

lemma decode_encode_flat_chunk:
  "decode_flat_chunk (encode_flat_chunk ev c) = Some (flat_chunk_as_read ev c)"
  by (simp add: decode_flat_chunk_def encode_flat_chunk_def decode_encode_rows
      decode_encode_metadata flat_chunk_as_read_def)

lemma value_as_read_native: "\<not> is_timestamp v \<Longrightarrow> value_as_read ev v = v"
  by (cases v) (simp_all add: value_as_read_def)

lemma rows_as_read_native: "json_native rows \<Longrightarrow> rows_as_read ev rows = rows"
  unfolding json_native_def rows_as_read_def
  by (induction rows) (auto simp: list_all_iff value_as_read_native intro!: map_idI)

lemma read_jsonl_lines:
  assumes "\<And>c. decode (encode c) = Some (as_read c)"
  shows "read_jsonl decode (Jsonl (map encode cs)) = Some (map as_read cs)"
proof -
  have "those (map decode (map encode cs)) = Some (map as_read cs)"
    by (induction cs) (simp_all add: assms)
  then show ?thesis by (simp only: read_jsonl_def export_file.case)
qed

lemma window_chunks_as_read_native:
  "list_all (\<lambda>c. json_native (wc_data c)) cs \<Longrightarrow> map (window_chunk_as_read ev) cs = cs"
  by (induction cs) (simp_all add: window_chunk_as_read_def rows_as_read_native)

lemma flat_chunks_as_read_native:
  "list_all (\<lambda>c. json_native (fc_data c)) cs \<Longrightarrow> map (flat_chunk_as_read ev) cs = cs"
  by (induction cs) (simp_all add: flat_chunk_as_read_def rows_as_read_native)

text \<open>
  The two streams of the earlier sections with only the column \<open>tweet_id\<close> selected: no
  record holds a timestamp.
\<close>

lemma example_windowed_stream_ids:
  "\<exists>c1 c2 c3 q1 q2 q3 q4 q5. stream_data_by_time_windows (init_connection (init (Some 2) (Some 1) None))
      (example_env (example_rows_at [0, 1, 2, 60, 61])) ''tweets''
      (TDatetime (example_time 0)) (TDatetime (example_time 2)) None (Some [''tweet_id''])
   = Some ([Query q1, Query q2, Yield c1, Sleep, Query q3, Yield c2, Query q4, Query q5, Yield c3, Sleep], None)
   \<and> map wc_data [c1, c2, c3]
       = [[[(''tweet_id'', SqlInt 0)], [(''tweet_id'', SqlInt 1)]],
          [[(''tweet_id'', SqlInt 2)]],
          [[(''tweet_id'', SqlInt 60)], [(''tweet_id'', SqlInt 61)]]]"
  apply (simp add: stream_data_by_time_windows_def example_windows)
  apply (simp add: get_table_count_def table_config_of_tweets parse_time_def Let_def
      init_connection_def init_def or_default_def run_count_def truthy_str_def truthy_list_def
      matching_def in_range_def satisfies_def example_env_def example_rows_at_def
      instant_def example_time_def utc_def window_pages.simps fetch_data_chunk_def run_fetch_def
      project_def order_key_def accepted_def selected_columns_def column_value_def dict_def
      bigint_max_def)
  done

lemma example_flat_stream_ids:
  "\<exists>q1 q2 c. stream_data_by_chunks (init_connection (init None None None))
      (example_env (example_rows_at [0])) ''tweets''
      (TDatetime (example_time 0)) (TDatetime (example_time 60)) None (Some [''tweet_id''])
   = ([Query q1, Query q2, Yield c, Sleep], None)
   \<and> fc_data c = [[(''tweet_id'', SqlInt 0)]]"
  by (simp add: stream_data_by_chunks_def get_table_count_def table_config_of_tweets
      parse_time_def Let_def init_connection_def init_def or_default_def DEFAULT_CONFIG_def
      run_count_def truthy_str_def truthy_list_def matching_def in_range_def satisfies_def
      example_env_def example_rows_at_def instant_def example_time_def utc_def
      chunks_loop.simps fetch_data_chunk_def run_fetch_def project_def order_key_def
      accepted_def selected_columns_def column_value_def dict_def bigint_max_def)

text \<open>
  C8, as the code has it: exporting a stream in the line-delimited format writes exactly one
  serialized envelope per yielded chunk, in the order of the stream, also when the stream
  ends with an error (the lines of the chunks yielded before it stay written); re-reading
  the file gives one envelope per line, equal to the envelope the stream produced except
  that each timestamp among its records has become the text the encoder wrote for it; so
  the sequence read equals the sequence produced, field for field, whenever the records
  hold no timestamp. This holds for the windowed stream, when it returns, and for the flat
  stream.
\<close>

theorem jsonl_round_trip:
  "(stream_data_by_time_windows f ev t st en w sf = Some (wevs, woutcome) \<longrightarrow>
      export_to_file f ev t st en ''jsonl'' True w sf
        = Some (Some (Jsonl (map (encode_window_chunk ev) (yields wevs))), woutcome)
    \<and> read_jsonl decode_window_chunk (Jsonl (map (encode_window_chunk ev) (yields wevs)))
        = Some (map (window_chunk_as_read ev) (yields wevs))
    \<and> (list_all (\<lambda>c. json_native (wc_data c)) (yields wevs) \<longrightarrow>
         read_jsonl decode_window_chunk (Jsonl (map (encode_window_chunk ev) (yields wevs)))
           = Some (yields wevs)))
   \<and> (stream_data_by_chunks f ev t st en w sf = (evs, outcome) \<longrightarrow>
      export_to_file f ev t st en ''jsonl'' False w sf
        = Some (Some (Jsonl (map (encode_flat_chunk ev) (yields evs))), outcome)
    \<and> read_jsonl decode_flat_chunk (Jsonl (map (encode_flat_chunk ev) (yields evs)))
        = Some (map (flat_chunk_as_read ev) (yields evs))
    \<and> (list_all (\<lambda>c. json_native (fc_data c)) (yields evs) \<longrightarrow>
         read_jsonl decode_flat_chunk (Jsonl (map (encode_flat_chunk ev) (yields evs)))
           = Some (yields evs)))"
proof (intro conjI impI)
  assume a: "stream_data_by_time_windows f ev t st en w sf = Some (wevs, woutcome)"
  show "export_to_file f ev t st en ''jsonl'' True w sf
        = Some (Some (Jsonl (map (encode_window_chunk ev) (yields wevs))), woutcome)"
    using a by (simp add: export_to_file_def data_stream_def comp_def)
  show r: "read_jsonl decode_window_chunk (Jsonl (map (encode_window_chunk ev) (yields wevs)))
        = Some (map (window_chunk_as_read ev) (yields wevs))"
    by (rule read_jsonl_lines) (rule decode_encode_window_chunk)
  assume "list_all (\<lambda>c. json_native (wc_data c)) (yields wevs)"
  then show "read_jsonl decode_window_chunk (Jsonl (map (encode_window_chunk ev) (yields wevs)))
           = Some (yields wevs)"
    using r by (simp add: window_chunks_as_read_native)
next
  assume a: "stream_data_by_chunks f ev t st en w sf = (evs, outcome)"
  show "export_to_file f ev t st en ''jsonl'' False w sf
        = Some (Some (Jsonl (map (encode_flat_chunk ev) (yields evs))), outcome)"
    using a by (simp add: export_to_file_def data_stream_def comp_def)
  show r: "read_jsonl decode_flat_chunk (Jsonl (map (encode_flat_chunk ev) (yields evs)))
        = Some (map (flat_chunk_as_read ev) (yields evs))"
    by (rule read_jsonl_lines) (rule decode_encode_flat_chunk)
  assume "list_all (\<lambda>c. json_native (fc_data c)) (yields evs)"
  then show "read_jsonl decode_flat_chunk (Jsonl (map (encode_flat_chunk ev) (yields evs)))
           = Some (yields evs)"
    using r by (simp add: flat_chunks_as_read_native)
qed

text \<open>
  C8 as stated fails: the one chunk of the flat stream over a single row of \<open>tweets\<close> holds
  the row's \<open>created_at_ts\<close> as a timestamp; the line written for it, read back, holds the
  text \<open>2024-01-01 00:00:00+00:00\<close> there.
\<close>

theorem jsonl_round_trip_counterexample:
  "export_to_file (init_connection (init None None None))
      (example_env (example_rows_at [0])) ''tweets''
      (TDatetime (example_time 0)) (TDatetime (example_time 60)) ''jsonl'' False None None
    = Some (Some (Jsonl [encode_flat_chunk (example_env (example_rows_at [0]))
                          (flat_chunk_of tweets_config ''tweets'' 1 1 0 (example_rows_at [0]))]),
            None)
   \<and> yields (fst (stream_data_by_chunks (init_connection (init None None None))
      (example_env (example_rows_at [0])) ''tweets''
      (TDatetime (example_time 0)) (TDatetime (example_time 60)) None None))
      = [flat_chunk_of tweets_config ''tweets'' 1 1 0 (example_rows_at [0])]
   \<and> read_jsonl decode_flat_chunk
        (Jsonl [encode_flat_chunk (example_env (example_rows_at [0]))
                  (flat_chunk_of tweets_config ''tweets'' 1 1 0 (example_rows_at [0]))])
      = Some [flat_chunk_as_read (example_env (example_rows_at [0]))
                (flat_chunk_of tweets_config ''tweets'' 1 1 0 (example_rows_at [0]))]
   \<and> fc_data (flat_chunk_as_read (example_env (example_rows_at [0]))
                (flat_chunk_of tweets_config ''tweets'' 1 1 0 (example_rows_at [0])))
      = [[(''created_at_ts'', SqlText ''2024-01-01 00:00:00+00:00''), (''tweet_id'', SqlInt 0)]]
   \<and> fc_data (flat_chunk_of tweets_config ''tweets'' 1 1 0 (example_rows_at [0]))
      = [[(''created_at_ts'', SqlTimestamp 63839664000000000), (''tweet_id'', SqlInt 0)]]"
proof -
  let ?ev = "example_env (example_rows_at [0])"
  let ?c = "flat_chunk_of tweets_config ''tweets'' 1 1 0 (example_rows_at [0])"
  have e: "export_to_file (init_connection (init None None None)) ?ev ''tweets''
      (TDatetime (example_time 0)) (TDatetime (example_time 60)) ''jsonl'' False None None
    = Some (Some (Jsonl [encode_flat_chunk ?ev ?c]), None)"
    by (simp add: export_to_file_def data_stream_def example_flat_stream)
  have y: "yields (fst (stream_data_by_chunks (init_connection (init None None None)) ?ev
      ''tweets'' (TDatetime (example_time 0)) (TDatetime (example_time 60)) None None)) = [?c]"
    by (simp add: example_flat_stream)
  have r: "read_jsonl decode_flat_chunk (Jsonl [encode_flat_chunk ?ev ?c])
      = Some [flat_chunk_as_read ?ev ?c]"
    using read_jsonl_lines [of decode_flat_chunk "encode_flat_chunk ?ev"
        "flat_chunk_as_read ?ev" "[?c]", OF decode_encode_flat_chunk] by simp
  have d1: "fc_data (flat_chunk_as_read ?ev ?c)
      = [[(''created_at_ts'', SqlText ''2024-01-01 00:00:00+00:00''), (''tweet_id'', SqlInt 0)]]"
    by (simp add: flat_chunk_as_read_def flat_chunk_of_def rows_as_read_def value_as_read_def
        example_rows_at_def example_env_def)
  have d2: "fc_data ?c
      = [[(''created_at_ts'', SqlTimestamp 63839664000000000), (''tweet_id'', SqlInt 0)]]"
    by (simp add: flat_chunk_of_def example_rows_at_def)
  from e y r d1 d2 show ?thesis by (intro conjI)
qed

text \<open>
  The theorem on the two streams that select \<open>tweet_id\<close> only: three lines for the windowed
  stream, one for the flat stream, and the envelopes read back are the envelopes produced.
\<close>

theorem jsonl_round_trip_witness:
  "\<exists>wevs evs.
      stream_data_by_time_windows (init_connection (init (Some 2) (Some 1) None))
        (example_env (example_rows_at [0, 1, 2, 60, 61])) ''tweets''
        (TDatetime (example_time 0)) (TDatetime (example_time 2)) None (Some [''tweet_id''])
        = Some (wevs, None)
    \<and> map wc_data (yields wevs)
        = [[[(''tweet_id'', SqlInt 0)], [(''tweet_id'', SqlInt 1)]],
           [[(''tweet_id'', SqlInt 2)]],
           [[(''tweet_id'', SqlInt 60)], [(''tweet_id'', SqlInt 61)]]]
    \<and> export_to_file (init_connection (init (Some 2) (Some 1) None))
        (example_env (example_rows_at [0, 1, 2, 60, 61])) ''tweets''
        (TDatetime (example_time 0)) (TDatetime (example_time 2)) ''jsonl'' True None
        (Some [''tweet_id''])
        = Some (Some (Jsonl (map (encode_window_chunk
                   (example_env (example_rows_at [0, 1, 2, 60, 61]))) (yields wevs))), None)
    \<and> read_jsonl decode_window_chunk
        (Jsonl (map (encode_window_chunk (example_env (example_rows_at [0, 1, 2, 60, 61])))
           (yields wevs)))
        = Some (yields wevs)
    \<and> stream_data_by_chunks (init_connection (init None None None))
        (example_env (example_rows_at [0])) ''tweets''
        (TDatetime (example_time 0)) (TDatetime (example_time 60)) None (Some [''tweet_id''])
        = (evs, None)
    \<and> map fc_data (yields evs) = [[[(''tweet_id'', SqlInt 0)]]]
    \<and> export_to_file (init_connection (init None None None))
        (example_env (example_rows_at [0])) ''tweets''
        (TDatetime (example_time 0)) (TDatetime (example_time 60)) ''jsonl'' False None
        (Some [''tweet_id''])
        = Some (Some (Jsonl (map (encode_flat_chunk (example_env (example_rows_at [0])))
                   (yields evs))), None)
    \<and> read_jsonl decode_flat_chunk
        (Jsonl (map (encode_flat_chunk (example_env (example_rows_at [0]))) (yields evs)))
        = Some (yields evs)"
proof -
  let ?fw = "init_connection (init (Some 2) (Some 1) None)"
  let ?evw = "example_env (example_rows_at [0, 1, 2, 60, 61])"
  let ?ff = "init_connection (init None None None)"
  let ?evf = "example_env (example_rows_at [0])"
  from example_windowed_stream_ids obtain c1 c2 c3 q1 q2 q3 q4 q5 where
    s: "stream_data_by_time_windows ?fw ?evw ''tweets''
      (TDatetime (example_time 0)) (TDatetime (example_time 2)) None (Some [''tweet_id''])
      = Some ([Query q1, Query q2, Yield c1, Sleep, Query q3, Yield c2, Query q4, Query q5,
               Yield c3, Sleep], None)"
    and wd: "map wc_data [c1, c2, c3]
       = [[[(''tweet_id'', SqlInt 0)], [(''tweet_id'', SqlInt 1)]],
          [[(''tweet_id'', SqlInt 2)]],
          [[(''tweet_id'', SqlInt 60)], [(''tweet_id'', SqlInt 61)]]]"
    by (elim exE conjE)
  let ?wevs = "[Query q1, Query q2, Yield c1, Sleep, Query q3, Yield c2, Query q4, Query q5,
               Yield c3, Sleep]"
  from example_flat_stream_ids obtain p1 p2 c where
    fl: "stream_data_by_chunks ?ff ?evf ''tweets''
      (TDatetime (example_time 0)) (TDatetime (example_time 60)) None (Some [''tweet_id''])
      = ([Query p1, Query p2, Yield c, Sleep], None)"
    and fd: "fc_data c = [[(''tweet_id'', SqlInt 0)]]"
    by (elim exE conjE)
  let ?evs = "[Query p1, Query p2, Yield c, Sleep]"
  have yw: "yields ?wevs = [c1, c2, c3]" and yf: "yields ?evs = [c]"
    by simp_all
  have wd': "map wc_data (yields ?wevs)
       = [[[(''tweet_id'', SqlInt 0)], [(''tweet_id'', SqlInt 1)]],
          [[(''tweet_id'', SqlInt 2)]],
          [[(''tweet_id'', SqlInt 60)], [(''tweet_id'', SqlInt 61)]]]"
    using wd by (simp only: yw)
  have fd': "map fc_data (yields ?evs) = [[[(''tweet_id'', SqlInt 0)]]]"
    using fd by (simp add: yf)
  have nw: "list_all (\<lambda>c. json_native (wc_data c)) (yields ?wevs)"
    using wd by (simp add: yw json_native_def)
  have nf: "list_all (\<lambda>c. json_native (fc_data c)) (yields ?evs)"
    using fd by (simp add: yf json_native_def)
  note t = jsonl_round_trip [of ?fw ?evw "''tweets''" "TDatetime (example_time 0)"
      "TDatetime (example_time 2)" None "Some [''tweet_id'']" ?wevs None]
  note tw = t [THEN conjunct1, rule_format, OF s]
  note tf = jsonl_round_trip [of ?ff ?evf "''tweets''" "TDatetime (example_time 0)"
      "TDatetime (example_time 60)" None "Some [''tweet_id'']" _ _ ?evs None,
      THEN conjunct2, rule_format, OF fl]
  note w1 = tw [THEN conjunct1]
    and w3 = tw [THEN conjunct2, THEN conjunct2, rule_format, OF nw]
    and f1 = tf [THEN conjunct1]
    and f3 = tf [THEN conjunct2, THEN conjunct2, rule_format, OF nf]
  from s wd' w1 w3 fl fd' f1 f3 show ?thesis
    by (intro exI [of _ ?wevs] exI [of _ ?evs] conjI)
qed

end
